theory Spec2Isabelle
  imports Main "HOL-Library.Monad_Syntax" "HOL-Library.Word"
begin

section \<open>Source sequences and their cursors\<close>

text \<open>
  The adapters of \<^verbatim>\<open>iterators.h\<close> are templates over the iterator types of the wrapped
  collections, which are external (standard containers). A cursor of such a collection
  is modelled as a position in the sequence of elements in the order the cursor walks
  them: \<^verbatim>\<open>begin()\<close>/\<^verbatim>\<open>end()\<close> walk the elements front to back, \<^verbatim>\<open>rbegin()\<close>/\<^verbatim>\<open>rend()\<close>
  walk them back to front. Two cursors are equal when they are the same position of the
  same walk. Reading a cursor that is not on an element and advancing a cursor that is
  already past the last element are undefined in C++; here they are the value \<open>None\<close>,
  which every caller propagates. A collection is the list of its elements; \<^verbatim>\<open>empty()\<close>
  is \<open>c = []\<close> and \<^verbatim>\<open>size()\<close> is \<open>length c\<close>, a natural number: a \<^verbatim>\<open>size_t\<close> counts elements
  that are all in memory at once and cannot wrap.

  Each class is a record of its data members and one function per member function
  (\<open>_new\<close> for the constructor, \<open>_deref\<close>, \<open>_inc\<close>, \<open>_eq\<close> and \<open>_neq\<close> for the operators
  \<^verbatim>\<open>*\<close>, \<^verbatim>\<open>++\<close>, \<^verbatim>\<open>==\<close> and \<^verbatim>\<open>!=\<close>). The members of the source end in an underscore, which
  a name cannot do here: \<^verbatim>\<open>first_begin_\<close> is \<open>first_begin\<close>, and where two classes have a
  member of the same name the field has a prefix (\<^verbatim>\<open>begin_\<close> is \<open>e_begin\<close>, \<open>f_begin\<close>,
  \<open>m_begin\<close>).
\<close>

record 'a std_iterator =
  elems :: "'a list"
  pos :: nat

definition std_begin :: "'a list \<Rightarrow> 'a std_iterator" where
  "std_begin c = \<lparr>elems = c, pos = 0\<rparr>"

definition std_end :: "'a list \<Rightarrow> 'a std_iterator" where
  "std_end c = \<lparr>elems = c, pos = length c\<rparr>"

definition std_rbegin :: "'a list \<Rightarrow> 'a std_iterator" where
  "std_rbegin c = \<lparr>elems = rev c, pos = 0\<rparr>"

definition std_rend :: "'a list \<Rightarrow> 'a std_iterator" where
  "std_rend c = \<lparr>elems = rev c, pos = length c\<rparr>"

definition std_deref :: "'a std_iterator \<Rightarrow> 'a option" where
  "std_deref it = (if pos it < length (elems it) then Some (elems it ! pos it) else None)"

definition std_inc :: "'a std_iterator \<Rightarrow> 'a std_iterator option" where
  "std_inc it = (if pos it < length (elems it) then Some (it\<lparr>pos := pos it + 1\<rparr>) else None)"

text \<open>
  The range-based \<^verbatim>\<open>for (auto& v : view) body\<close> of C++:
  \<^verbatim>\<open>for (auto it = view.begin(), e = view.end(); it != e; ++it) { auto& v = *it; body }\<close>.
  The body is a function from the element and the state of the loop to the new state.
  Nothing bounds the number of rounds, so the result is an option: \<open>None\<close> when the
  loop does not return, or when a step of it is undefined.
\<close>

partial_function (option) range_for ::
  "('c \<Rightarrow> 'c \<Rightarrow> bool) \<Rightarrow> ('c \<Rightarrow> 'v option) \<Rightarrow> ('c \<Rightarrow> 'c option) \<Rightarrow> ('v \<Rightarrow> 's \<Rightarrow> 's)
     \<Rightarrow> 'c \<Rightarrow> 'c \<Rightarrow> 's \<Rightarrow> 's option" where
  "range_for neq deref inc body it e s =
     (if neq it e
      then (case deref it of
              None \<Rightarrow> None
            | Some v \<Rightarrow> (case inc it of
                          None \<Rightarrow> None
                        | Some it' \<Rightarrow> range_for neq deref inc body it' e (body v s)))
      else Some s)"

declare range_for.simps [code]

text \<open>The body that records the visited elements in order (\<^verbatim>\<open>result.push_back(v)\<close>).\<close>

definition push_back :: "'v \<Rightarrow> 'v list \<Rightarrow> 'v list" where
  "push_back v s = s @ [v]"

section \<open>Zip\<close>

text \<open>\<^verbatim>\<open>ZippedValue\<close>, \<^verbatim>\<open>ZippedIterator\<close>, \<^verbatim>\<open>ZippedBase\<close> and \<^verbatim>\<open>Zipped\<close>
  (\<^verbatim>\<open>iterators.h\<close>, lines 1374 to 1547).\<close>

text \<open>\<^verbatim>\<open>ZippedValue\<close> holds two pointers into the sources. A pointer to an element is the
  element it points to (\<open>Some\<close> of its value; nothing here writes through it), and
  \<open>None\<close> is the null pointer of the default value.\<close>

record ('a, 'b) ZippedValue =
  zv_first :: "'a option"
  zv_second :: "'b option"

record ('a, 'b) ZippedIterator =
  first_begin :: "'a std_iterator"
  first_end :: "'a std_iterator"
  second_begin :: "'b std_iterator"
  second_end :: "'b std_iterator"
  z_value :: "('a, 'b) ZippedValue"

definition ZippedIterator_IsAtEnd :: "('a, 'b) ZippedIterator \<Rightarrow> bool" where
  "ZippedIterator_IsAtEnd it =
     (first_begin it = first_end it \<or> second_begin it = second_end it)"

definition ZippedIterator_SetValue :: "('a, 'b) ZippedIterator \<Rightarrow> ('a, 'b) ZippedIterator option" where
  "ZippedIterator_SetValue it =
     (if \<not> ZippedIterator_IsAtEnd it
      then do {
        a \<leftarrow> std_deref (first_begin it);
        b \<leftarrow> std_deref (second_begin it);
        Some (it\<lparr>z_value := \<lparr>zv_first = Some a, zv_second = Some b\<rparr>\<rparr>)
      }
      else Some it)"

definition ZippedIterator_new ::
  "'a std_iterator \<Rightarrow> 'a std_iterator \<Rightarrow> 'b std_iterator \<Rightarrow> 'b std_iterator
     \<Rightarrow> ('a, 'b) ZippedIterator option" where
  "ZippedIterator_new fb fe sb se =
     ZippedIterator_SetValue
       \<lparr>first_begin = fb, first_end = fe, second_begin = sb, second_end = se,
        z_value = \<lparr>zv_first = None, zv_second = None\<rparr>\<rparr>"

definition ZippedIterator_deref :: "('a, 'b) ZippedIterator \<Rightarrow> ('a, 'b) ZippedValue option" where
  "ZippedIterator_deref it = Some (z_value it)"

definition ZippedIterator_inc :: "('a, 'b) ZippedIterator \<Rightarrow> ('a, 'b) ZippedIterator option" where
  "ZippedIterator_inc it = do {
     f \<leftarrow> std_inc (first_begin it);
     s \<leftarrow> std_inc (second_begin it);
     ZippedIterator_SetValue (it\<lparr>first_begin := f, second_begin := s\<rparr>)
   }"

definition ZippedIterator_eq :: "('a, 'b) ZippedIterator \<Rightarrow> ('a, 'b) ZippedIterator \<Rightarrow> bool" where
  "ZippedIterator_eq it other = (ZippedIterator_IsAtEnd it = ZippedIterator_IsAtEnd other)"

definition ZippedIterator_neq :: "('a, 'b) ZippedIterator \<Rightarrow> ('a, 'b) ZippedIterator \<Rightarrow> bool" where
  "ZippedIterator_neq it other = (\<not> ZippedIterator_eq it other)"

definition ZippedBase_begin :: "'a list \<Rightarrow> 'b list \<Rightarrow> ('a, 'b) ZippedIterator option" where
  "ZippedBase_begin first second =
     ZippedIterator_new (std_begin first) (std_end first) (std_begin second) (std_end second)"

definition ZippedBase_end :: "'a list \<Rightarrow> 'b list \<Rightarrow> ('a, 'b) ZippedIterator option" where
  "ZippedBase_end first second =
     ZippedIterator_new (std_end first) (std_end first) (std_end second) (std_end second)"

definition ZippedBase_empty :: "'a list \<Rightarrow> 'b list \<Rightarrow> bool" where
  "ZippedBase_empty first second = (first = [] \<or> second = [])"

definition ZippedBase_size :: "'a list \<Rightarrow> 'b list \<Rightarrow> nat" where
  "ZippedBase_size first second = min (length first) (length second)"

definition Zipped_rbegin :: "'a list \<Rightarrow> 'b list \<Rightarrow> ('a, 'b) ZippedIterator option" where
  "Zipped_rbegin first second =
     ZippedIterator_new (std_rbegin first) (std_rend first) (std_rbegin second) (std_rend second)"

definition Zipped_rend :: "'a list \<Rightarrow> 'b list \<Rightarrow> ('a, 'b) ZippedIterator option" where
  "Zipped_rend first second =
     ZippedIterator_new (std_rend first) (std_rend first) (std_rend second) (std_rend second)"

text \<open>Traversal of a Zip view with a range-based for that records each value.\<close>

definition Zipped_for ::
  "('a, 'b) ZippedIterator option \<Rightarrow> ('a, 'b) ZippedIterator option
     \<Rightarrow> ('a, 'b) ZippedValue list option" where
  "Zipped_for b e = do {
     it \<leftarrow> b;
     en \<leftarrow> e;
     range_for ZippedIterator_neq ZippedIterator_deref ZippedIterator_inc push_back it en []
   }"

definition Zipped_forward :: "'a list \<Rightarrow> 'b list \<Rightarrow> ('a, 'b) ZippedValue list option" where
  "Zipped_forward first second = Zipped_for (ZippedBase_begin first second) (ZippedBase_end first second)"

definition Zipped_reverse :: "'a list \<Rightarrow> 'b list \<Rightarrow> ('a, 'b) ZippedValue list option" where
  "Zipped_reverse first second = Zipped_for (Zipped_rbegin first second) (Zipped_rend first second)"

text \<open>The \<^verbatim>\<open>ZippedValue\<close> that points to the two components of a pair.\<close>

definition zipped :: "'a \<times> 'b \<Rightarrow> ('a, 'b) ZippedValue" where
  "zipped p = \<lparr>zv_first = Some (fst p), zv_second = Some (snd p)\<rparr>"

section \<open>Enumerate\<close>

text \<open>\<^verbatim>\<open>WithSizeAndEmpty\<close>, \<^verbatim>\<open>Item\<close>, \<^verbatim>\<open>EnumeratedIterator\<close>, \<^verbatim>\<open>EnumeratedBase\<close> and
  \<^verbatim>\<open>Enumerated\<close> (\<^verbatim>\<open>iterators.h\<close>, lines 411 to 583).\<close>































section \<open>Chain\<close>

text \<open>\<^verbatim>\<open>ChainedIterator\<close>, \<^verbatim>\<open>ChainedBase\<close> and \<^verbatim>\<open>Chained\<close>
  (\<^verbatim>\<open>iterators.h\<close>, lines 630 to 814).\<close>

record 'a ChainedIterator =
  outer_begin :: "'a list std_iterator"
  outer_end :: "'a list std_iterator"
  inner_begin :: "'a std_iterator"
  inner_end :: "'a std_iterator"
  get_inner_begin :: "'a list \<Rightarrow> 'a std_iterator"
  get_inner_end :: "'a list \<Rightarrow> 'a std_iterator"

definition ChainedIterator_IsAtEnd :: "'a ChainedIterator \<Rightarrow> bool" where
  "ChainedIterator_IsAtEnd it = (outer_begin it = outer_end it)"

definition IsAtEndOfInnerCollection :: "'a ChainedIterator \<Rightarrow> bool" where
  "IsAtEndOfInnerCollection it = (inner_begin it = inner_end it)"

definition InitializeInnerCollection :: "'a ChainedIterator \<Rightarrow> 'a ChainedIterator option" where
  "InitializeInnerCollection it =
     (if \<not> ChainedIterator_IsAtEnd it
      then do {
        c \<leftarrow> std_deref (outer_begin it);
        Some (it\<lparr>inner_begin := get_inner_begin it c, inner_end := get_inner_end it c\<rparr>)
      }
      else Some it)"

definition AdvanceOuterCollection :: "'a ChainedIterator \<Rightarrow> 'a ChainedIterator option" where
  "AdvanceOuterCollection it = do {
     ob \<leftarrow> std_inc (outer_begin it);
     InitializeInnerCollection (it\<lparr>outer_begin := ob\<rparr>)
   }"

text \<open>
  \<^verbatim>\<open>while (!IsAtEnd() && IsAtEndOfInnerCollection()) AdvanceOuterCollection();\<close>
  The loop has no bound of its own: \<open>None\<close> is the loop that does not return (or a
  step of it that is undefined).
\<close>

partial_function (option) SkipEmptyInnerCollections ::
  "'a ChainedIterator \<Rightarrow> 'a ChainedIterator option" where
  "SkipEmptyInnerCollections it =
     (if \<not> ChainedIterator_IsAtEnd it \<and> IsAtEndOfInnerCollection it
      then (case AdvanceOuterCollection it of
              None \<Rightarrow> None
            | Some it' \<Rightarrow> SkipEmptyInnerCollections it')
      else Some it)"

declare SkipEmptyInnerCollections.simps [code]

text \<open>The value-initialised inner iterators of the constructor walk nothing.\<close>

definition singular_iterator :: "'a std_iterator" where
  "singular_iterator = \<lparr>elems = [], pos = 0\<rparr>"

definition ChainedIterator_new ::
  "'a list std_iterator \<Rightarrow> 'a list std_iterator \<Rightarrow> ('a list \<Rightarrow> 'a std_iterator)
     \<Rightarrow> ('a list \<Rightarrow> 'a std_iterator) \<Rightarrow> 'a ChainedIterator option" where
  "ChainedIterator_new b e inner_begin_getter inner_end_getter = do {
     it \<leftarrow> InitializeInnerCollection
             \<lparr>outer_begin = b, outer_end = e,
              inner_begin = singular_iterator, inner_end = singular_iterator,
              get_inner_begin = inner_begin_getter, get_inner_end = inner_end_getter\<rparr>;
     SkipEmptyInnerCollections it
   }"

definition ChainedIterator_deref :: "'a ChainedIterator \<Rightarrow> 'a option" where
  "ChainedIterator_deref it = std_deref (inner_begin it)"

definition ChainedIterator_inc :: "'a ChainedIterator \<Rightarrow> 'a ChainedIterator option" where
  "ChainedIterator_inc it = do {
     ib \<leftarrow> std_inc (inner_begin it);
     SkipEmptyInnerCollections (it\<lparr>inner_begin := ib\<rparr>)
   }"

definition ChainedIterator_eq :: "'a ChainedIterator \<Rightarrow> 'a ChainedIterator \<Rightarrow> bool" where
  "ChainedIterator_eq it other = (ChainedIterator_IsAtEnd it = ChainedIterator_IsAtEnd other)"

definition ChainedIterator_neq :: "'a ChainedIterator \<Rightarrow> 'a ChainedIterator \<Rightarrow> bool" where
  "ChainedIterator_neq it other = (\<not> ChainedIterator_eq it other)"

definition ChainedBase_begin :: "'a list list \<Rightarrow> 'a ChainedIterator option" where
  "ChainedBase_begin data = ChainedIterator_new (std_begin data) (std_end data) std_begin std_end"

definition ChainedBase_end :: "'a list list \<Rightarrow> 'a ChainedIterator option" where
  "ChainedBase_end data = ChainedIterator_new (std_end data) (std_end data) std_begin std_end"

definition Chained_rbegin :: "'a list list \<Rightarrow> 'a ChainedIterator option" where
  "Chained_rbegin data = ChainedIterator_new (std_rbegin data) (std_rend data) std_rbegin std_rend"

definition Chained_rend :: "'a list list \<Rightarrow> 'a ChainedIterator option" where
  "Chained_rend data = ChainedIterator_new (std_rend data) (std_rend data) std_rbegin std_rend"

text \<open>\<^verbatim>\<open>for (const auto& collection : data_) if (!collection.empty()) return false; return true;\<close>\<close>

fun ChainedBase_IsEmpty :: "'a list list \<Rightarrow> bool" where
  "ChainedBase_IsEmpty [] = True"
| "ChainedBase_IsEmpty (collection # data) =
     (if \<not> (collection = []) then False else ChainedBase_IsEmpty data)"

text \<open>\<^verbatim>\<open>std::size_t result = 0; for (const auto& collection : data_) result += collection.size();\<close>
  A \<^verbatim>\<open>size_t\<close> counts elements that are all in memory at once, so the sum cannot wrap;
  it is a natural number here.\<close>

fun ChainedBase_Size_loop :: "'a list list \<Rightarrow> nat \<Rightarrow> nat" where
  "ChainedBase_Size_loop [] result = result"
| "ChainedBase_Size_loop (collection # data) result =
     ChainedBase_Size_loop data (result + length collection)"

definition ChainedBase_Size :: "'a list list \<Rightarrow> nat" where
  "ChainedBase_Size data = ChainedBase_Size_loop data 0"

definition Chained_for ::
  "'a ChainedIterator option \<Rightarrow> 'a ChainedIterator option \<Rightarrow> 'a list option" where
  "Chained_for b e = do {
     it \<leftarrow> b;
     en \<leftarrow> e;
     range_for ChainedIterator_neq ChainedIterator_deref ChainedIterator_inc push_back it en []
   }"

definition Chained_forward :: "'a list list \<Rightarrow> 'a list option" where
  "Chained_forward data = Chained_for (ChainedBase_begin data) (ChainedBase_end data)"

definition Chained_reverse :: "'a list list \<Rightarrow> 'a list option" where
  "Chained_reverse data = Chained_for (Chained_rbegin data) (Chained_rend data)"

section \<open>Filter\<close>

text \<open>\<^verbatim>\<open>FilterIterator\<close>, \<^verbatim>\<open>FilteredBase\<close> and \<^verbatim>\<open>Filtered\<close>
  (\<^verbatim>\<open>iterators.h\<close>, lines 1247 to 1371).\<close>

record 'a FilterIterator =
  f_begin :: "'a std_iterator"
  f_end :: "'a std_iterator"
  f_filter :: "'a \<Rightarrow> bool"

definition FilterIterator_IsEnd :: "'a FilterIterator \<Rightarrow> bool" where
  "FilterIterator_IsEnd it = (f_begin it = f_end it)"

definition FilterIterator_IsFiltered :: "'a FilterIterator \<Rightarrow> bool option" where
  "FilterIterator_IsFiltered it = do {
     v \<leftarrow> std_deref (f_begin it);
     Some (\<not> f_filter it v)
   }"

text \<open>
  \<^verbatim>\<open>while (!IsEnd() && IsFiltered()) ++begin_;\<close>
  \<^verbatim>\<open>IsFiltered\<close> is evaluated only when \<^verbatim>\<open>IsEnd\<close> is false.
\<close>

partial_function (option) SkipFilteredEntries :: "'a FilterIterator \<Rightarrow> 'a FilterIterator option" where
  "SkipFilteredEntries it =
     (if \<not> FilterIterator_IsEnd it
      then (case FilterIterator_IsFiltered it of
              None \<Rightarrow> None
            | Some filtered \<Rightarrow>
                if filtered
                then (case std_inc (f_begin it) of
                        None \<Rightarrow> None
                      | Some b \<Rightarrow> SkipFilteredEntries (it\<lparr>f_begin := b\<rparr>))
                else Some it)
      else Some it)"

declare SkipFilteredEntries.simps [code]

definition FilterIterator_new ::
  "'a std_iterator \<Rightarrow> 'a std_iterator \<Rightarrow> ('a \<Rightarrow> bool) \<Rightarrow> 'a FilterIterator option" where
  "FilterIterator_new b e filter_function =
     SkipFilteredEntries \<lparr>f_begin = b, f_end = e, f_filter = filter_function\<rparr>"

definition FilterIterator_deref :: "'a FilterIterator \<Rightarrow> 'a option" where
  "FilterIterator_deref it = std_deref (f_begin it)"

definition FilterIterator_inc :: "'a FilterIterator \<Rightarrow> 'a FilterIterator option" where
  "FilterIterator_inc it = do {
     b \<leftarrow> std_inc (f_begin it);
     SkipFilteredEntries (it\<lparr>f_begin := b\<rparr>)
   }"

definition FilterIterator_eq :: "'a FilterIterator \<Rightarrow> 'a FilterIterator \<Rightarrow> bool" where
  "FilterIterator_eq it other = (f_begin it = f_begin other)"

definition FilterIterator_neq :: "'a FilterIterator \<Rightarrow> 'a FilterIterator \<Rightarrow> bool" where
  "FilterIterator_neq it other = (\<not> FilterIterator_eq it other)"

definition FilteredBase_begin :: "'a list \<Rightarrow> ('a \<Rightarrow> bool) \<Rightarrow> 'a FilterIterator option" where
  "FilteredBase_begin iterable filter_function =
     FilterIterator_new (std_begin iterable) (std_end iterable) filter_function"

definition FilteredBase_end :: "'a list \<Rightarrow> ('a \<Rightarrow> bool) \<Rightarrow> 'a FilterIterator option" where
  "FilteredBase_end iterable filter_function =
     FilterIterator_new (std_end iterable) (std_end iterable) filter_function"



text \<open>\<^verbatim>\<open>for (const auto& value : *this) return false; return true;\<close>\<close>

definition FilteredBase_IsEmpty :: "'a list \<Rightarrow> ('a \<Rightarrow> bool) \<Rightarrow> bool option" where
  "FilteredBase_IsEmpty iterable filter_function = do {
     it \<leftarrow> FilteredBase_begin iterable filter_function;
     en \<leftarrow> FilteredBase_end iterable filter_function;
     if FilterIterator_neq it en
     then do { v \<leftarrow> FilterIterator_deref it; Some False }
     else Some True
   }"

text \<open>\<^verbatim>\<open>std::size_t result = 0; for (const auto& value : *this) ++result; return result;\<close>\<close>

definition FilteredBase_Size :: "'a list \<Rightarrow> ('a \<Rightarrow> bool) \<Rightarrow> nat option" where
  "FilteredBase_Size iterable filter_function = do {
     it \<leftarrow> FilteredBase_begin iterable filter_function;
     en \<leftarrow> FilteredBase_end iterable filter_function;
     range_for FilterIterator_neq FilterIterator_deref FilterIterator_inc
       (\<lambda>v result. result + 1) it en 0
   }"

definition Filtered_forward :: "'a list \<Rightarrow> ('a \<Rightarrow> bool) \<Rightarrow> 'a list option" where
  "Filtered_forward iterable filter_function = do {
     it \<leftarrow> FilteredBase_begin iterable filter_function;
     en \<leftarrow> FilteredBase_end iterable filter_function;
     range_for FilterIterator_neq FilterIterator_deref FilterIterator_inc push_back it en []
   }"

section \<open>Join\<close>

text \<open>\<^verbatim>\<open>JoinedIterator\<close>, \<^verbatim>\<open>JoinedBase\<close> and \<^verbatim>\<open>Joined\<close>
  (\<^verbatim>\<open>iterators.h\<close>, lines 1016 to 1143). The reverse cursor of \<^verbatim>\<open>Joined\<close> is a
  \<^verbatim>\<open>JoinedIterator\<close> whose first range is the second source walked backward and whose
  second range is the first source walked backward.\<close>

record 'a JoinedIterator =
  j_first :: "'a std_iterator"
  j_first_end :: "'a std_iterator"
  j_second :: "'a std_iterator"
  j_second_end :: "'a std_iterator"

definition JoinedIterator_deref :: "'a JoinedIterator \<Rightarrow> 'a option" where
  "JoinedIterator_deref it =
     (if j_first it \<noteq> j_first_end it then std_deref (j_first it) else std_deref (j_second it))"

definition JoinedIterator_inc :: "'a JoinedIterator \<Rightarrow> 'a JoinedIterator option" where
  "JoinedIterator_inc it =
     (if j_first it \<noteq> j_first_end it
      then do { f \<leftarrow> std_inc (j_first it); Some (it\<lparr>j_first := f\<rparr>) }
      else do { s \<leftarrow> std_inc (j_second it); Some (it\<lparr>j_second := s\<rparr>) })"

definition JoinedIterator_eq :: "'a JoinedIterator \<Rightarrow> 'a JoinedIterator \<Rightarrow> bool" where
  "JoinedIterator_eq it other = (j_first it = j_first other \<and> j_second it = j_second other)"

definition JoinedIterator_neq :: "'a JoinedIterator \<Rightarrow> 'a JoinedIterator \<Rightarrow> bool" where
  "JoinedIterator_neq it other = (\<not> JoinedIterator_eq it other)"

definition JoinedBase_begin :: "'a list \<Rightarrow> 'a list \<Rightarrow> 'a JoinedIterator" where
  "JoinedBase_begin first second =
     \<lparr>j_first = std_begin first, j_first_end = std_end first,
      j_second = std_begin second, j_second_end = std_end second\<rparr>"

definition JoinedBase_end :: "'a list \<Rightarrow> 'a list \<Rightarrow> 'a JoinedIterator" where
  "JoinedBase_end first second =
     \<lparr>j_first = std_end first, j_first_end = std_end first,
      j_second = std_end second, j_second_end = std_end second\<rparr>"

definition Joined_rbegin :: "'a list \<Rightarrow> 'a list \<Rightarrow> 'a JoinedIterator" where
  "Joined_rbegin first second =
     \<lparr>j_first = std_rbegin second, j_first_end = std_rend second,
      j_second = std_rbegin first, j_second_end = std_rend first\<rparr>"

definition Joined_rend :: "'a list \<Rightarrow> 'a list \<Rightarrow> 'a JoinedIterator" where
  "Joined_rend first second =
     \<lparr>j_first = std_rend second, j_first_end = std_rend second,
      j_second = std_rend first, j_second_end = std_rend first\<rparr>"

definition JoinedBase_empty :: "'a list \<Rightarrow> 'a list \<Rightarrow> bool" where
  "JoinedBase_empty first second = (first = [] \<and> second = [])"

definition JoinedBase_size :: "'a list \<Rightarrow> 'a list \<Rightarrow> nat" where
  "JoinedBase_size first second = length first + length second"

definition Joined_for :: "'a JoinedIterator \<Rightarrow> 'a JoinedIterator \<Rightarrow> 'a list option" where
  "Joined_for it en =
     range_for JoinedIterator_neq JoinedIterator_deref JoinedIterator_inc push_back it en []"

definition Joined_forward :: "'a list \<Rightarrow> 'a list \<Rightarrow> 'a list option" where
  "Joined_forward first second = Joined_for (JoinedBase_begin first second) (JoinedBase_end first second)"

definition Joined_reverse :: "'a list \<Rightarrow> 'a list \<Rightarrow> 'a list option" where
  "Joined_reverse first second = Joined_for (Joined_rbegin first second) (Joined_rend first second)"

section \<open>Reverse\<close>

text \<open>
  \<^verbatim>\<open>Reversed\<close> (\<^verbatim>\<open>iterators.h\<close>, lines 988 to 1013).
  \<^verbatim>\<open>Reversed<T>\<close> wraps any collection with the four entry points \<^verbatim>\<open>begin\<close>, \<^verbatim>\<open>end\<close>,
  \<^verbatim>\<open>rbegin\<close>, \<^verbatim>\<open>rend\<close> (a container or another view) and has no cursor type of its own:
  it hands out the cursors of the wrapped collection. A bidirectional collection is the
  record of the four cursors its entry points return.
\<close>

record 'c bidirectional =
  c_begin :: 'c
  c_end :: 'c
  c_rbegin :: 'c
  c_rend :: 'c

definition container :: "'a list \<Rightarrow> 'a std_iterator bidirectional" where
  "container c =
     \<lparr>c_begin = std_begin c, c_end = std_end c, c_rbegin = std_rbegin c, c_rend = std_rend c\<rparr>"

definition Reversed :: "'c bidirectional \<Rightarrow> 'c bidirectional" where
  "Reversed iterable =
     \<lparr>c_begin = c_rbegin iterable, c_end = c_rend iterable,
      c_rbegin = c_begin iterable, c_rend = c_end iterable\<rparr>"

text \<open>Forward traversal of a collection, given the operations of its cursor type.\<close>

definition forward ::
  "('c \<Rightarrow> 'c \<Rightarrow> bool) \<Rightarrow> ('c \<Rightarrow> 'v option) \<Rightarrow> ('c \<Rightarrow> 'c option) \<Rightarrow> 'c bidirectional
     \<Rightarrow> 'v list option" where
  "forward neq deref inc iterable =
     range_for neq deref inc push_back (c_begin iterable) (c_end iterable) []"

definition std_neq :: "'a std_iterator \<Rightarrow> 'a std_iterator \<Rightarrow> bool" where
  "std_neq it other = (it \<noteq> other)"

section \<open>Map\<close>

text \<open>
  \<^verbatim>\<open>MappedIterator\<close> and \<^verbatim>\<open>MappedBase\<close> (\<^verbatim>\<open>iterators.h\<close>, lines 1146 to 1198).
  The mapping function is any callable that takes the element by reference: besides its
  result it may change the element (\<^verbatim>\<open>MapTest.CanModifyValues\<close> adds 100 to it) and a state
  of its own. It is a function from the element and that state to the result, the new
  value of the element and the new state. Because a dereference can write to the source,
  the source of a Map view is a store (the current elements of the collection) that is
  passed along with the function's state, and a source cursor is an index into it.
  The cursor holds two source cursors and a reference to the function, and nothing else.
\<close>

record ('a, 'b, 's) MappedIterator =
  m_begin :: nat
  m_end :: nat
  mapping_function :: "'a \<Rightarrow> 's \<Rightarrow> 'b \<times> 'a \<times> 's"

text \<open>\<^verbatim>\<open>auto operator*() const { return mapping_function_(*begin_); }\<close>\<close>

definition MappedIterator_deref ::
  "('a, 'b, 's) MappedIterator \<Rightarrow> 'a list \<times> 's \<Rightarrow> ('b \<times> 'a list \<times> 's) option" where
  "MappedIterator_deref it w =
     (case w of (store, s) \<Rightarrow>
        if m_begin it < length store
        then (case mapping_function it (store ! m_begin it) s of
                (r, v', s') \<Rightarrow> Some (r, store[m_begin it := v'], s'))
        else None)"

text \<open>\<^verbatim>\<open>void operator++() { ++begin_; }\<close>\<close>

definition MappedIterator_inc ::
  "('a, 'b, 's) MappedIterator \<Rightarrow> 'a list \<times> 's
     \<Rightarrow> (('a, 'b, 's) MappedIterator \<times> 'a list \<times> 's) option" where
  "MappedIterator_inc it w =
     (case w of (store, s) \<Rightarrow>
        if m_begin it < length store
        then Some (it\<lparr>m_begin := m_begin it + 1\<rparr>, store, s)
        else None)"


definition MappedBase_begin ::
  "'a list \<Rightarrow> ('a \<Rightarrow> 's \<Rightarrow> 'b \<times> 'a \<times> 's) \<Rightarrow> ('a, 'b, 's) MappedIterator" where
  "MappedBase_begin iterable f = \<lparr>m_begin = 0, m_end = length iterable, mapping_function = f\<rparr>"


text \<open>A mapping function that returns ten times the element, adds 100 to the element
  and counts its own invocations.\<close>

definition times_ten_add_hundred :: "int \<Rightarrow> nat \<Rightarrow> int \<times> int \<times> nat" where
  "times_ten_add_hundred v n = (v * 10, v + 100, n + 1)"

section \<open>Iterate\<close>






section \<open>AsReferences\<close>

text \<open>
  \<^verbatim>\<open>ReferencedIterator\<close>, \<^verbatim>\<open>ReferencedBase\<close> and \<^verbatim>\<open>Referenced\<close> (\<^verbatim>\<open>iterators.h\<close>, lines 816 to
  894), over a collection of pointers. A pointer is \<open>Some v\<close> when it points to an object
  of value \<open>v\<close> and \<open>None\<close> when it is null; \<^verbatim>\<open>**begin_\<close> reads the cursor and then the
  pointer, and is undefined when either read is.
\<close>

record 'a ReferencedIterator =
  r_begin :: "'a option std_iterator"
  r_end :: "'a option std_iterator"

definition ReferencedIterator_deref :: "'a ReferencedIterator \<Rightarrow> 'a option" where
  "ReferencedIterator_deref it = do {
     pointer \<leftarrow> std_deref (r_begin it);
     pointer
   }"


definition ReferencedIterator_eq :: "'a ReferencedIterator \<Rightarrow> 'a ReferencedIterator \<Rightarrow> bool" where
  "ReferencedIterator_eq it other = (r_begin it = r_begin other)"

definition ReferencedIterator_neq :: "'a ReferencedIterator \<Rightarrow> 'a ReferencedIterator \<Rightarrow> bool" where
  "ReferencedIterator_neq it other = (\<not> ReferencedIterator_eq it other)"





text \<open>
  \<^verbatim>\<open>ReferencedUniqueIterator\<close>, \<^verbatim>\<open>ReferencedUniqueBase\<close> and \<^verbatim>\<open>ReferencedUnique\<close>
  (\<^verbatim>\<open>iterators.h\<close>, lines 901 to 986), over a collection of \<^verbatim>\<open>std::unique_ptr\<close>. A
  \<^verbatim>\<open>unique_ptr\<close> is the pointer its \<^verbatim>\<open>get()\<close> returns.
\<close>

record 'a ReferencedUniqueIterator =
  u_begin :: "'a option std_iterator"
  u_end :: "'a option std_iterator"

definition ReferencedUniqueIterator_deref :: "'a ReferencedUniqueIterator \<Rightarrow> 'a option" where
  "ReferencedUniqueIterator_deref it = do {
     unique_pointer \<leftarrow> std_deref (u_begin it);
     let pointer = unique_pointer;
     pointer
   }"


definition ReferencedUniqueIterator_eq ::
  "'a ReferencedUniqueIterator \<Rightarrow> 'a ReferencedUniqueIterator \<Rightarrow> bool" where
  "ReferencedUniqueIterator_eq it other = (u_begin it = u_begin other)"

definition ReferencedUniqueIterator_neq ::
  "'a ReferencedUniqueIterator \<Rightarrow> 'a ReferencedUniqueIterator \<Rightarrow> bool" where
  "ReferencedUniqueIterator_neq it other = (\<not> ReferencedUniqueIterator_eq it other)"





section \<open>Cursor states along a traversal\<close>

text \<open>
  The definitions of this section are not part of the program: they name the cursor
  states a traversal passes through and the elements still to come, for the proofs.
\<close>

definition zip_at :: "'a list \<Rightarrow> 'b list \<Rightarrow> nat \<Rightarrow> ('a, 'b) ZippedValue \<Rightarrow> ('a, 'b) ZippedIterator" where
  "zip_at xs ys k v =
     \<lparr>first_begin = \<lparr>elems = xs, pos = k\<rparr>, first_end = \<lparr>elems = xs, pos = length xs\<rparr>,
      second_begin = \<lparr>elems = ys, pos = k\<rparr>, second_end = \<lparr>elems = ys, pos = length ys\<rparr>,
      z_value = v\<rparr>"

definition zip_inv :: "'a list \<Rightarrow> 'b list \<Rightarrow> ('a, 'b) ZippedIterator \<Rightarrow> bool" where
  "zip_inv xs ys it =
     (\<exists>k v. it = zip_at xs ys k v \<and> k \<le> length xs \<and> k \<le> length ys \<and>
        (k < length xs \<and> k < length ys \<longrightarrow> v = zipped (xs ! k, ys ! k)))"

definition zip_rest :: "('a, 'b) ZippedIterator \<Rightarrow> ('a, 'b) ZippedValue list" where
  "zip_rest it =
     map zipped (drop (pos (first_begin it)) (zip (elems (first_begin it)) (elems (second_begin it))))"

definition join_at :: "'a list \<Rightarrow> 'a list \<Rightarrow> nat \<Rightarrow> nat \<Rightarrow> 'a JoinedIterator" where
  "join_at xs ys i j =
     \<lparr>j_first = \<lparr>elems = xs, pos = i\<rparr>, j_first_end = \<lparr>elems = xs, pos = length xs\<rparr>,
      j_second = \<lparr>elems = ys, pos = j\<rparr>, j_second_end = \<lparr>elems = ys, pos = length ys\<rparr>\<rparr>"

definition join_inv :: "'a list \<Rightarrow> 'a list \<Rightarrow> 'a JoinedIterator \<Rightarrow> bool" where
  "join_inv xs ys it =
     (\<exists>i j. it = join_at xs ys i j \<and> i \<le> length xs \<and> j \<le> length ys \<and> (i < length xs \<longrightarrow> j = 0))"

definition join_rest :: "'a JoinedIterator \<Rightarrow> 'a list" where
  "join_rest it =
     drop (pos (j_first it)) (elems (j_first it)) @ drop (pos (j_second it)) (elems (j_second it))"

definition filter_at :: "'a list \<Rightarrow> nat \<Rightarrow> ('a \<Rightarrow> bool) \<Rightarrow> 'a FilterIterator" where
  "filter_at xs k p =
     \<lparr>f_begin = \<lparr>elems = xs, pos = k\<rparr>, f_end = \<lparr>elems = xs, pos = length xs\<rparr>, f_filter = p\<rparr>"

definition skip_to :: "('a \<Rightarrow> bool) \<Rightarrow> 'a list \<Rightarrow> nat \<Rightarrow> nat" where
  "skip_to p xs k = k + length (takeWhile (\<lambda>x. \<not> p x) (drop k xs))"

definition filter_inv :: "'a list \<Rightarrow> ('a \<Rightarrow> bool) \<Rightarrow> 'a FilterIterator \<Rightarrow> bool" where
  "filter_inv xs p it =
     (\<exists>k. it = filter_at xs k p \<and> k \<le> length xs \<and> (k < length xs \<longrightarrow> p (xs ! k)))"

definition filter_rest :: "'a FilterIterator \<Rightarrow> 'a list" where
  "filter_rest it = filter (f_filter it) (drop (pos (f_begin it)) (elems (f_begin it)))"

text \<open>The inner getters are well-formed when, for every inner collection, they return a
  position of one walk and the end of the same walk.\<close>

definition getters_wf :: "('a list \<Rightarrow> 'a std_iterator) \<Rightarrow> ('a list \<Rightarrow> 'a std_iterator) \<Rightarrow> bool" where
  "getters_wf gb ge =
     (\<forall>c. elems (ge c) = elems (gb c) \<and> pos (ge c) = length (elems (gb c))
          \<and> pos (gb c) \<le> length (elems (gb c)))"

text \<open>A Chain cursor is well-formed when its outer cursor is a position of a walk whose
  end is \<open>outer_end\<close>, its getters are well-formed and, unless the outer cursor is at the
  end, its inner cursors are a position and the end of one walk.\<close>

definition chain_wf :: "'a ChainedIterator \<Rightarrow> bool" where
  "chain_wf it =
     (pos (outer_begin it) \<le> length (elems (outer_begin it))
      \<and> outer_end it = \<lparr>elems = elems (outer_begin it), pos = length (elems (outer_begin it))\<rparr>
      \<and> getters_wf (get_inner_begin it) (get_inner_end it)
      \<and> (ChainedIterator_IsAtEnd it \<or>
           elems (inner_end it) = elems (inner_begin it)
           \<and> pos (inner_end it) = length (elems (inner_begin it))
           \<and> pos (inner_begin it) \<le> length (elems (inner_begin it))))"

definition inner_walk :: "('a list \<Rightarrow> 'a std_iterator) \<Rightarrow> 'a list \<Rightarrow> 'a list" where
  "inner_walk gb c = drop (pos (gb c)) (elems (gb c))"

definition chain_rest :: "'a ChainedIterator \<Rightarrow> 'a list" where
  "chain_rest it =
     (if ChainedIterator_IsAtEnd it then []
      else drop (pos (inner_begin it)) (elems (inner_begin it))
           @ concat (map (inner_walk (get_inner_begin it))
                      (drop (Suc (pos (outer_begin it))) (elems (outer_begin it)))))"

text \<open>What stays the same while a cursor moves: the outer walk and the getters.\<close>

definition chain_same :: "'a ChainedIterator \<Rightarrow> 'a ChainedIterator \<Rightarrow> bool" where
  "chain_same it it' =
     (elems (outer_begin it') = elems (outer_begin it) \<and> outer_end it' = outer_end it
      \<and> get_inner_begin it' = get_inner_begin it \<and> get_inner_end it' = get_inner_end it)"

definition chain_inv :: "'a ChainedIterator \<Rightarrow> bool" where
  "chain_inv it = (chain_wf it \<and> (ChainedIterator_IsAtEnd it \<or> \<not> IsAtEndOfInnerCollection it))"

text \<open>A cursor of the forward traversal: outer position \<open>i\<close>, inner position \<open>j\<close> of the
  inner collection \<open>xs\<close>.\<close>

definition chain_at :: "'a list list \<Rightarrow> nat \<Rightarrow> 'a list \<Rightarrow> nat \<Rightarrow> 'a ChainedIterator" where
  "chain_at os i xs j =
     \<lparr>outer_begin = \<lparr>elems = os, pos = i\<rparr>, outer_end = \<lparr>elems = os, pos = length os\<rparr>,
      inner_begin = \<lparr>elems = xs, pos = j\<rparr>, inner_end = \<lparr>elems = xs, pos = length xs\<rparr>,
      get_inner_begin = std_begin, get_inner_end = std_end\<rparr>"











section \<open>The range-based for over a cursor with a known rest\<close>

lemma fold_push_back: "fold push_back vs acc = acc @ vs"
  by (induction vs arbitrary: acc) (simp_all add: push_back_def)

text \<open>
  If every cursor \<open>c\<close> of an invariant \<open>I\<close> has a list \<open>rest c\<close> of elements still to
  come, the cursor compares equal to the end when the list is empty, and otherwise reads
  its head and advances to a cursor whose list is the tail, then the loop returns, having
  run its body on \<open>rest c\<close> in order.
\<close>

lemma range_for_fold:
  assumes inv: "I c"
    and stop: "\<And>c. I c \<Longrightarrow> rest c = [] \<Longrightarrow> \<not> neq c e"
    and step: "\<And>c v vs. I c \<Longrightarrow> rest c = v # vs \<Longrightarrow>
                 neq c e \<and> deref c = Some v \<and> (\<exists>c'. inc c = Some c' \<and> I c' \<and> rest c' = vs)"
  shows "range_for neq deref inc body c e s = Some (fold body (rest c) s)"
  using inv
proof (induction "rest c" arbitrary: c s)
  case Nil
  then have "\<not> neq c e" using stop by simp
  then show ?case using Nil.hyps [symmetric] by (subst range_for.simps) simp
next
  case (Cons v vs)
  from step [OF Cons.prems Cons.hyps(2) [symmetric]]
  obtain c' where c': "neq c e" "deref c = Some v" "inc c = Some c'" "I c'" "rest c' = vs"
    by blast
  have "range_for neq deref inc body c e s = range_for neq deref inc body c' e (body v s)"
    by (subst range_for.simps) (simp add: c')
  also have "\<dots> = Some (fold body (rest c') (body v s))"
    using Cons.hyps(1) [of c'] c' by simp
  finally show ?case using c'(5) Cons.hyps(2) [symmetric] by simp
qed

section \<open>Zip: traversal\<close>

lemma zip_at_IsAtEnd:
  "ZippedIterator_IsAtEnd (zip_at xs ys k v) \<longleftrightarrow> k = length xs \<or> k = length ys"
  by (simp add: ZippedIterator_IsAtEnd_def zip_at_def)

lemma zip_at_SetValue:
  "k \<le> length xs \<Longrightarrow> k \<le> length ys \<Longrightarrow>
   ZippedIterator_SetValue (zip_at xs ys k v) =
     Some (zip_at xs ys k (if k < length xs \<and> k < length ys then zipped (xs ! k, ys ! k) else v))"
  by (auto simp add: ZippedIterator_SetValue_def zip_at_IsAtEnd std_deref_def zipped_def)
     (simp_all add: zip_at_def)

lemma zip_at_inc:
  "k < length xs \<Longrightarrow> k < length ys \<Longrightarrow>
   ZippedIterator_inc (zip_at xs ys k v) =
     Some (zip_at xs ys (Suc k)
        (if Suc k < length xs \<and> Suc k < length ys then zipped (xs ! Suc k, ys ! Suc k) else v))"
proof -
  assume k: "k < length xs" "k < length ys"
  have "ZippedIterator_inc (zip_at xs ys k v) = ZippedIterator_SetValue (zip_at xs ys (Suc k) v)"
    using k by (simp add: ZippedIterator_inc_def std_inc_def zip_at_def)
  then show ?thesis using k by (simp add: zip_at_SetValue)
qed

lemma zip_rest_at: "zip_rest (zip_at xs ys k v) = map zipped (drop k (zip xs ys))"
  by (simp add: zip_rest_def zip_at_def)

lemma zip_loop:
  assumes en: "ZippedIterator_IsAtEnd en"
    and inv: "zip_inv xs ys it"
  shows "range_for ZippedIterator_neq ZippedIterator_deref ZippedIterator_inc push_back it en acc
         = Some (acc @ zip_rest it)"
proof -
  have "range_for ZippedIterator_neq ZippedIterator_deref ZippedIterator_inc push_back it en acc
         = Some (fold push_back (zip_rest it) acc)"
  proof (rule range_for_fold [where I = "zip_inv xs ys"], rule inv)
    fix c :: "('a, 'b) ZippedIterator"
    assume "zip_inv xs ys c" and r: "zip_rest c = []"
    then obtain k v where c: "c = zip_at xs ys k v" "k \<le> length xs" "k \<le> length ys"
      by (auto simp: zip_inv_def)
    from r c have "k = length xs \<or> k = length ys"
      by (auto simp: zip_rest_at)
    then show "\<not> ZippedIterator_neq c en"
      using en c by (simp add: ZippedIterator_neq_def ZippedIterator_eq_def zip_at_IsAtEnd)
  next
    fix c :: "('a, 'b) ZippedIterator" and w ws
    assume "zip_inv xs ys c" and r: "zip_rest c = w # ws"
    then obtain k v where c: "c = zip_at xs ys k v" "k \<le> length xs" "k \<le> length ys"
      and v: "k < length xs \<and> k < length ys \<longrightarrow> v = zipped (xs ! k, ys ! k)"
      by (auto simp: zip_inv_def)
    from r c have "drop k (zip xs ys) \<noteq> []" by (auto simp: zip_rest_at)
    then have k: "k < length xs" "k < length ys" by auto
    have d: "drop k (zip xs ys) = (xs ! k, ys ! k) # drop (Suc k) (zip xs ys)"
      using k by (simp add: Cons_nth_drop_Suc [symmetric])
    have w: "w = v" "ws = map zipped (drop (Suc k) (zip xs ys))"
      using r c v k d by (simp_all add: zip_rest_at)
    let ?v' = "if Suc k < length xs \<and> Suc k < length ys then zipped (xs ! Suc k, ys ! Suc k) else v"
    have "ZippedIterator_neq c en"
      using en c k by (simp add: ZippedIterator_neq_def ZippedIterator_eq_def zip_at_IsAtEnd)
    moreover have "ZippedIterator_deref c = Some w"
      using c w by (simp add: ZippedIterator_deref_def zip_at_def)
    moreover have "ZippedIterator_inc c = Some (zip_at xs ys (Suc k) ?v')"
      using c k by (simp add: zip_at_inc)
    moreover have "zip_inv xs ys (zip_at xs ys (Suc k) ?v')"
      unfolding zip_inv_def using k by (intro exI [of _ "Suc k"] exI [of _ ?v']) auto
    moreover have "zip_rest (zip_at xs ys (Suc k) ?v') = ws"
      using w by (simp add: zip_rest_at)
    ultimately show "ZippedIterator_neq c en \<and> ZippedIterator_deref c = Some w \<and>
        (\<exists>c'. ZippedIterator_inc c = Some c' \<and> zip_inv xs ys c' \<and> zip_rest c' = ws)"
      by blast
  qed
  then show ?thesis by (simp add: fold_push_back)
qed

lemma zip_new_begin:
  "ZippedIterator_new \<lparr>elems = xs, pos = 0\<rparr> \<lparr>elems = xs, pos = length xs\<rparr>
       \<lparr>elems = ys, pos = 0\<rparr> \<lparr>elems = ys, pos = length ys\<rparr>
   = Some (zip_at xs ys 0 (if 0 < length xs \<and> 0 < length ys then zipped (xs ! 0, ys ! 0)
                            else \<lparr>zv_first = None, zv_second = None\<rparr>))"
  using zip_at_SetValue [of 0 xs ys "\<lparr>zv_first = None, zv_second = None\<rparr>"]
  by (simp add: ZippedIterator_new_def zip_at_def)

lemma zip_new_end:
  "ZippedIterator_new \<lparr>elems = xs, pos = length xs\<rparr> \<lparr>elems = xs, pos = length xs\<rparr>
       \<lparr>elems = ys, pos = length ys\<rparr> \<lparr>elems = ys, pos = length ys\<rparr> = Some en
   \<Longrightarrow> ZippedIterator_IsAtEnd en"
  by (auto simp add: ZippedIterator_new_def ZippedIterator_SetValue_def ZippedIterator_IsAtEnd_def)

lemma zip_new_end_Some:
  "\<exists>en. ZippedIterator_new \<lparr>elems = xs, pos = length xs\<rparr> \<lparr>elems = xs, pos = length xs\<rparr>
       \<lparr>elems = ys, pos = length ys\<rparr> \<lparr>elems = ys, pos = length ys\<rparr> = Some en"
  by (simp add: ZippedIterator_new_def ZippedIterator_SetValue_def ZippedIterator_IsAtEnd_def)

lemma zip_walk:
  "Zipped_for
     (ZippedIterator_new \<lparr>elems = xs, pos = 0\<rparr> \<lparr>elems = xs, pos = length xs\<rparr>
        \<lparr>elems = ys, pos = 0\<rparr> \<lparr>elems = ys, pos = length ys\<rparr>)
     (ZippedIterator_new \<lparr>elems = xs, pos = length xs\<rparr> \<lparr>elems = xs, pos = length xs\<rparr>
        \<lparr>elems = ys, pos = length ys\<rparr> \<lparr>elems = ys, pos = length ys\<rparr>)
   = Some (map zipped (zip xs ys))"
proof -
  obtain en where en: "ZippedIterator_new \<lparr>elems = xs, pos = length xs\<rparr> \<lparr>elems = xs, pos = length xs\<rparr>
       \<lparr>elems = ys, pos = length ys\<rparr> \<lparr>elems = ys, pos = length ys\<rparr> = Some en"
    using zip_new_end_Some by blast
  let ?v = "if 0 < length xs \<and> 0 < length ys then zipped (xs ! 0, ys ! 0)
                            else \<lparr>zv_first = None, zv_second = None\<rparr>"
  have "zip_inv xs ys (zip_at xs ys 0 ?v)"
    unfolding zip_inv_def by (intro exI [of _ 0] exI [of _ ?v]) simp
  from zip_loop [OF zip_new_end [OF en] this, of "[]"]
  show ?thesis
    by (simp add: Zipped_for_def zip_new_begin en zip_rest_at)
qed

lemma Zipped_forward_eq: "Zipped_forward xs ys = Some (map zipped (zip xs ys))"
  using zip_walk [of xs ys]
  by (simp add: Zipped_forward_def ZippedBase_begin_def ZippedBase_end_def std_begin_def std_end_def)

lemma Zipped_reverse_eq: "Zipped_reverse xs ys = Some (map zipped (zip (rev xs) (rev ys)))"
  using zip_walk [of "rev xs" "rev ys"]
  by (simp add: Zipped_reverse_def Zipped_rbegin_def Zipped_rend_def std_rbegin_def std_rend_def)

lemma zip_by_index:
  "zip xs ys = map (\<lambda>i. (xs ! i, ys ! i)) [0..<min (length xs) (length ys)]"
  by (rule nth_equalityI) simp_all

text \<open>
  C3. Forward traversal of \<open>Zip(S1, S2)\<close> returns, and yields exactly
  \<open>min |S1| |S2|\<close> pairs, the \<open>i\<close>-th pointing to the \<open>i\<close>-th element of \<open>S1\<close> and the
  \<open>i\<close>-th element of \<open>S2\<close>; \<open>size()\<close> is that minimum and is the number of pairs visited;
  \<open>empty()\<close> holds exactly when one of the sources is empty, which is exactly when the
  traversal visits nothing.
\<close>

theorem Zip_forward_pairs_size_empty:
  "Zipped_forward S1 S2 =
     Some (map (\<lambda>i. \<lparr>zv_first = Some (S1 ! i), zv_second = Some (S2 ! i)\<rparr>)
             [0..<min (length S1) (length S2)])
   \<and> ZippedBase_size S1 S2 = min (length S1) (length S2)
   \<and> map_option length (Zipped_forward S1 S2) = Some (ZippedBase_size S1 S2)
   \<and> (ZippedBase_empty S1 S2 \<longleftrightarrow> S1 = [] \<or> S2 = [])
   \<and> (ZippedBase_empty S1 S2 \<longleftrightarrow> Zipped_forward S1 S2 = Some [])"
proof -
  have "map zipped (zip S1 S2) =
      map (\<lambda>i. \<lparr>zv_first = Some (S1 ! i), zv_second = Some (S2 ! i)\<rparr>)
        [0..<min (length S1) (length S2)]"
    by (subst zip_by_index) (simp add: zipped_def comp_def)
  moreover have "(S1 = [] \<or> S2 = []) \<longleftrightarrow> min (length S1) (length S2) = 0"
    by (cases S1; cases S2) simp_all
  ultimately show ?thesis
    by (simp add: Zipped_forward_eq ZippedBase_size_def ZippedBase_empty_def)
qed

text \<open>When the two sources have the same size, the reverse traversal visits the pairs of
  the forward traversal in the opposite order.\<close>

lemma Zipped_reverse_equal_sizes:
  "length xs = length ys \<Longrightarrow> Zipped_reverse xs ys = map_option rev (Zipped_forward xs ys)"
  by (simp add: Zipped_reverse_eq Zipped_forward_eq zip_rev rev_map)

text \<open>
  C1. The code departs from the claim when the sources differ in size. \<^verbatim>\<open>Zipped::rbegin\<close>
  hands the reverse cursors of the two sources to the cursor as they are, so the reverse
  traversal pairs the elements counted from the back, and nothing moves the cursor of the
  longer source to the element where the forward traversal stops. Over \<open>[1, 2, 3]\<close> and
  \<open>[10, 20]\<close> the forward traversal visits \<open>(1, 10), (2, 20)\<close> and the reverse traversal
  visits \<open>(3, 20), (2, 10)\<close>: not the forward pairs in the opposite order, and no pair of
  the forward traversal at all. Over \<open>[1, 2]\<close> and \<open>[10]\<close> the forward traversal visits
  \<open>(1, 10)\<close> and the reverse traversal \<open>(2, 10)\<close>.
\<close>

theorem Zip_reverse_unequal_sizes:
  "Zipped_forward [1 :: int, 2, 3] [10 :: int, 20]
     = Some [\<lparr>zv_first = Some 1, zv_second = Some 10\<rparr>, \<lparr>zv_first = Some 2, zv_second = Some 20\<rparr>]
   \<and> Zipped_reverse [1 :: int, 2, 3] [10 :: int, 20]
     = Some [\<lparr>zv_first = Some 3, zv_second = Some 20\<rparr>, \<lparr>zv_first = Some 2, zv_second = Some 10\<rparr>]
   \<and> Zipped_reverse [1 :: int, 2, 3] [10 :: int, 20]
        \<noteq> map_option rev (Zipped_forward [1, 2, 3] [10, 20])
   \<and> set [\<lparr>zv_first = Some (3 :: int), zv_second = Some (20 :: int)\<rparr>,
           \<lparr>zv_first = Some 2, zv_second = Some 10\<rparr>]
        \<inter> set [\<lparr>zv_first = Some 1, zv_second = Some 10\<rparr>, \<lparr>zv_first = Some 2, zv_second = Some 20\<rparr>]
       = {}
   \<and> Zipped_forward [1 :: int, 2] [10 :: int] = Some [\<lparr>zv_first = Some 1, zv_second = Some 10\<rparr>]
   \<and> Zipped_reverse [1 :: int, 2] [10 :: int] = Some [\<lparr>zv_first = Some 2, zv_second = Some 10\<rparr>]
   \<and> Zipped_reverse [1 :: int, 2] [10 :: int] \<noteq> map_option rev (Zipped_forward [1, 2] [10])"
  by (simp add: Zipped_reverse_eq Zipped_forward_eq zipped_def)

section \<open>Join: traversal\<close>

lemma join_rest_at: "join_rest (join_at xs ys i j) = drop i xs @ drop j ys"
  by (simp add: join_rest_def join_at_def)

lemma join_step_first:
  assumes "i < length xs"
  shows "JoinedIterator_deref (join_at xs ys i j) = Some (xs ! i)"
    and "JoinedIterator_inc (join_at xs ys i j) = Some (join_at xs ys (Suc i) j)"
  using assms by (simp_all add: JoinedIterator_deref_def JoinedIterator_inc_def join_at_def
      std_deref_def std_inc_def)

lemma join_step_second:
  assumes "j < length ys"
  shows "JoinedIterator_deref (join_at xs ys (length xs) j) = Some (ys ! j)"
    and "JoinedIterator_inc (join_at xs ys (length xs) j) = Some (join_at xs ys (length xs) (Suc j))"
  using assms by (simp_all add: JoinedIterator_deref_def JoinedIterator_inc_def join_at_def
      std_deref_def std_inc_def)

lemma join_neq_end:
  "JoinedIterator_neq (join_at xs ys i j) (join_at xs ys (length xs) (length ys))
     \<longleftrightarrow> \<not> (i = length xs \<and> j = length ys)"
  by (simp add: JoinedIterator_neq_def JoinedIterator_eq_def join_at_def)

lemma join_walk:
  "Joined_for (join_at xs ys 0 0) (join_at xs ys (length xs) (length ys)) = Some (xs @ ys)"
proof -
  let ?e = "join_at xs ys (length xs) (length ys)"
  have "range_for JoinedIterator_neq JoinedIterator_deref JoinedIterator_inc push_back
          (join_at xs ys 0 0) ?e [] = Some (fold push_back (join_rest (join_at xs ys 0 0)) [])"
  proof (rule range_for_fold [where I = "join_inv xs ys"])
    show "join_inv xs ys (join_at xs ys 0 0)"
      unfolding join_inv_def by (intro exI [of _ 0]) simp
  next
    fix c :: "'a JoinedIterator"
    assume "join_inv xs ys c" and r: "join_rest c = []"
    then obtain i j where c: "c = join_at xs ys i j" "i \<le> length xs" "j \<le> length ys"
      by (auto simp: join_inv_def)
    with r have "i = length xs \<and> j = length ys" by (simp add: join_rest_at)
    then show "\<not> JoinedIterator_neq c ?e" using c by (simp add: join_neq_end)
  next
    fix c :: "'a JoinedIterator" and v vs
    assume "join_inv xs ys c" and r: "join_rest c = v # vs"
    then obtain i j where c: "c = join_at xs ys i j" "i \<le> length xs" "j \<le> length ys"
      and ij: "i < length xs \<longrightarrow> j = 0"
      by (auto simp: join_inv_def)
    show "JoinedIterator_neq c ?e \<and> JoinedIterator_deref c = Some v \<and>
        (\<exists>c'. JoinedIterator_inc c = Some c' \<and> join_inv xs ys c' \<and> join_rest c' = vs)"
    proof (cases "i < length xs")
      case True
      then have d: "drop i xs = xs ! i # drop (Suc i) xs"
        by (simp add: Cons_nth_drop_Suc)
      with r c have v: "v = xs ! i" "vs = drop (Suc i) xs @ drop j ys"
        by (simp_all add: join_rest_at)
      have "join_inv xs ys (join_at xs ys (Suc i) j)"
        unfolding join_inv_def using True c ij by (intro exI [of _ "Suc i"] exI [of _ j]) simp
      then show ?thesis
        using True c v join_step_first [OF True, of ys j]
        by (simp add: join_neq_end join_rest_at)
    next
      case False
      then have i: "i = length xs" using c by simp
      with r c have "drop j ys = v # vs" by (simp add: join_rest_at)
      then have j: "j < length ys" and v: "v = ys ! j" "vs = drop (Suc j) ys"
        using c(3) by (auto simp add: Cons_nth_drop_Suc [symmetric] le_less)
      have "join_inv xs ys (join_at xs ys (length xs) (Suc j))"
        unfolding join_inv_def using j by (intro exI [of _ "length xs"] exI [of _ "Suc j"]) simp
      then show ?thesis
        using i j c v join_step_second [OF j, of xs]
        by (simp add: join_neq_end join_rest_at)
    qed
  qed
  then show ?thesis by (simp add: Joined_for_def fold_push_back join_rest_at)
qed

lemma Joined_forward_eq: "Joined_forward xs ys = Some (xs @ ys)"
  using join_walk [of xs ys]
  by (simp add: Joined_forward_def JoinedBase_begin_def JoinedBase_end_def std_begin_def
      std_end_def join_at_def)

lemma Joined_reverse_eq: "Joined_reverse xs ys = Some (rev ys @ rev xs)"
  using join_walk [of "rev ys" "rev xs"]
  by (simp add: Joined_reverse_def Joined_rbegin_def Joined_rend_def std_rbegin_def
      std_rend_def join_at_def)

text \<open>
  C6. Forward traversal of \<open>Join(S1, S2)\<close> returns and yields the elements of \<open>S1\<close>
  followed by the elements of \<open>S2\<close>; so \<open>Join([], [])\<close> yields nothing, and \<open>Join([], [x])\<close>
  and \<open>Join([x], [])\<close> yield \<open>[x]\<close>. Reverse traversal returns and yields the elements of
  \<open>S2\<close> back to front followed by the elements of \<open>S1\<close> back to front, which is the
  forward traversal in the opposite order.
\<close>

theorem Join_forward_concat_reverse_backward:
  "Joined_forward S1 S2 = Some (S1 @ S2)
   \<and> Joined_forward [] ([] :: 'a list) = Some []
   \<and> Joined_forward [] [x] = Some [x]
   \<and> Joined_forward [x] [] = Some [x]
   \<and> Joined_reverse S1 S2 = Some (rev S2 @ rev S1)
   \<and> Joined_reverse S1 S2 = map_option rev (Joined_forward S1 S2)"
  by (simp add: Joined_forward_eq Joined_reverse_eq)

section \<open>Filter: the skip loop and traversal\<close>

lemma skip_to_here: "k < length xs \<Longrightarrow> p (xs ! k) \<Longrightarrow> skip_to p xs k = k"
  by (simp add: skip_to_def Cons_nth_drop_Suc [symmetric])

lemma skip_to_next: "k < length xs \<Longrightarrow> \<not> p (xs ! k) \<Longrightarrow> skip_to p xs k = skip_to p xs (Suc k)"
  by (simp add: skip_to_def Cons_nth_drop_Suc [symmetric])

lemma skip_to_end: "skip_to p xs (length xs) = length xs"
  by (simp add: skip_to_def)

lemma skip_to_le: "k \<le> length xs \<Longrightarrow> skip_to p xs k \<le> length xs"
proof -
  assume "k \<le> length xs"
  have "length (takeWhile (\<lambda>x. \<not> p x) (drop k xs)) \<le> length (drop k xs)"
    by (rule length_takeWhile_le)
  then show ?thesis using \<open>k \<le> length xs\<close> by (simp add: skip_to_def)
qed

lemma skip_to_holds:
  "k \<le> length xs \<Longrightarrow> skip_to p xs k < length xs \<Longrightarrow> p (xs ! skip_to p xs k)"
proof (induction "length xs - k" arbitrary: k)
  case 0
  then show ?case by (simp add: skip_to_def)
next
  case (Suc n)
  then have k: "k < length xs" by simp
  show ?case
  proof (cases "p (xs ! k)")
    case True
    then show ?thesis using k by (simp add: skip_to_here)
  next
    case False
    then have "skip_to p xs k = skip_to p xs (Suc k)" using skip_to_next [of k xs p] k by simp
    then show ?thesis using Suc.hyps(1) [of "Suc k"] Suc.hyps(2) Suc.prems k by simp
  qed
qed

lemma filter_skip_to:
  "k \<le> length xs \<Longrightarrow> filter p (drop (skip_to p xs k) xs) = filter p (drop k xs)"
proof (induction "length xs - k" arbitrary: k)
  case 0
  then show ?case by (simp add: skip_to_def)
next
  case (Suc n)
  then have k: "k < length xs" by simp
  show ?case
  proof (cases "p (xs ! k)")
    case True
    then show ?thesis using k by (simp add: skip_to_here)
  next
    case False
    then have "skip_to p xs k = skip_to p xs (Suc k)" using skip_to_next [of k xs p] k by simp
    moreover have "filter p (drop k xs) = filter p (drop (Suc k) xs)"
      using False k by (simp add: Cons_nth_drop_Suc [symmetric])
    ultimately show ?thesis using Suc.hyps(1) [of "Suc k"] Suc.hyps(2) k by simp
  qed
qed

text \<open>The skip loop returns: it stops on the first element at or after \<open>k\<close> that the
  predicate accepts, or at the end.\<close>

lemma SkipFilteredEntries_at:
  "k \<le> length xs \<Longrightarrow>
   SkipFilteredEntries (filter_at xs k p) = Some (filter_at xs (skip_to p xs k) p)"
proof (induction "length xs - k" arbitrary: k)
  case 0
  then have "k = length xs" by simp
  then show ?case
    by (subst SkipFilteredEntries.simps)
       (simp add: FilterIterator_IsEnd_def filter_at_def skip_to_end)
next
  case (Suc n)
  then have k: "k < length xs" by simp
  have ne: "\<not> FilterIterator_IsEnd (filter_at xs k p)"
    using k by (simp add: FilterIterator_IsEnd_def filter_at_def)
  have fl: "FilterIterator_IsFiltered (filter_at xs k p) = Some (\<not> p (xs ! k))"
    using k by (simp add: FilterIterator_IsFiltered_def filter_at_def std_deref_def)
  show ?case
  proof (cases "p (xs ! k)")
    case True
    then show ?thesis using k ne fl
      by (subst SkipFilteredEntries.simps) (simp add: skip_to_here)
  next
    case False
    have inc: "std_inc (f_begin (filter_at xs k p)) = Some \<lparr>elems = xs, pos = Suc k\<rparr>"
      using k by (simp add: std_inc_def filter_at_def)
    have upd: "(filter_at xs k p)\<lparr>f_begin := \<lparr>elems = xs, pos = Suc k\<rparr>\<rparr> = filter_at xs (Suc k) p"
      by (simp add: filter_at_def)
    have IH: "SkipFilteredEntries (filter_at xs (Suc k) p)
                = Some (filter_at xs (skip_to p xs (Suc k)) p)"
      using Suc.hyps(1) [of "Suc k"] Suc.hyps(2) k by simp
    have "SkipFilteredEntries (filter_at xs k p) = SkipFilteredEntries (filter_at xs (Suc k) p)"
      by (subst SkipFilteredEntries.simps) (simp add: ne fl False inc upd)
    then show ?thesis using IH skip_to_next [of k xs p] k False by simp
  qed
qed

text \<open>Whatever the cursor it starts from, when the skip loop returns a cursor that is
  not at the end, the cursor is on an element the predicate accepts.\<close>

lemma SkipFilteredEntries_post:
  "SkipFilteredEntries it = Some it' \<Longrightarrow>
     f_filter it' = f_filter it \<and>
     (\<not> FilterIterator_IsEnd it' \<longrightarrow> (\<exists>v. std_deref (f_begin it') = Some v \<and> f_filter it' v))"
proof (induction rule: SkipFilteredEntries.raw_induct [rotated 1, consumes 1])
  case (1 skip it it')
  show ?case
  proof (cases "FilterIterator_IsEnd it")
    case True
    with 1(2) show ?thesis by simp
  next
    case False
    show ?thesis
    proof (cases "std_deref (f_begin it)")
      case None
      with False 1(2) show ?thesis by (simp add: FilterIterator_IsFiltered_def)
    next
      case (Some v)
      show ?thesis
      proof (cases "f_filter it v")
        case True
        with False Some 1(2) show ?thesis by (auto simp add: FilterIterator_IsFiltered_def)
      next
        case nf: False
        with False Some 1(2) obtain b where
          "std_inc (f_begin it) = Some b" "skip (it\<lparr>f_begin := b\<rparr>) = Some it'"
          by (auto simp add: FilterIterator_IsFiltered_def split: option.splits)
        from 1(1) [OF this(2)] show ?thesis by auto
      qed
    qed
  qed
qed

lemma filter_rest_at: "filter_rest (filter_at xs k p) = filter p (drop k xs)"
  by (simp add: filter_rest_def filter_at_def)

lemma filter_inv_skip: "k \<le> length xs \<Longrightarrow> filter_inv xs p (filter_at xs (skip_to p xs k) p)"
  unfolding filter_inv_def
  by (intro exI [of _ "skip_to p xs k"]) (simp add: skip_to_le skip_to_holds)

lemma FilterIterator_inc_at:
  "k < length xs \<Longrightarrow>
   FilterIterator_inc (filter_at xs k p) = Some (filter_at xs (skip_to p xs (Suc k)) p)"
proof -
  assume k: "k < length xs"
  have "FilterIterator_inc (filter_at xs k p) = SkipFilteredEntries (filter_at xs (Suc k) p)"
    using k by (simp add: FilterIterator_inc_def std_inc_def filter_at_def)
  then show ?thesis using k by (simp add: SkipFilteredEntries_at)
qed

lemma filter_loop:
  assumes "k \<le> length xs"
  shows "range_for FilterIterator_neq FilterIterator_deref FilterIterator_inc body
           (filter_at xs (skip_to p xs k) p) (filter_at xs (length xs) p) s
         = Some (fold body (filter p (drop k xs)) s)"
proof -
  let ?e = "filter_at xs (length xs) p"
  have "range_for FilterIterator_neq FilterIterator_deref FilterIterator_inc body
           (filter_at xs (skip_to p xs k) p) ?e s
         = Some (fold body (filter_rest (filter_at xs (skip_to p xs k) p)) s)"
  proof (rule range_for_fold [where I = "filter_inv xs p"])
    show "filter_inv xs p (filter_at xs (skip_to p xs k) p)"
      using assms by (rule filter_inv_skip)
  next
    fix c :: "'a FilterIterator"
    assume "filter_inv xs p c" and r: "filter_rest c = []"
    then obtain i where c: "c = filter_at xs i p" "i \<le> length xs" "i < length xs \<longrightarrow> p (xs ! i)"
      by (auto simp: filter_inv_def)
    have "i = length xs"
    proof (rule ccontr)
      assume "i \<noteq> length xs"
      then have i: "i < length xs" using c by simp
      then have "xs ! i \<in> set (filter p (drop i xs))"
        using c by (simp add: Cons_nth_drop_Suc [symmetric])
      then show False using r c by (auto simp add: filter_rest_at filter_empty_conv)
    qed
    then show "\<not> FilterIterator_neq c ?e"
      using c by (simp add: FilterIterator_neq_def FilterIterator_eq_def)
  next
    fix c :: "'a FilterIterator" and v vs
    assume "filter_inv xs p c" and r: "filter_rest c = v # vs"
    then obtain i where c: "c = filter_at xs i p" "i \<le> length xs" "i < length xs \<longrightarrow> p (xs ! i)"
      by (auto simp: filter_inv_def)
    from r c have "drop i xs \<noteq> []" by (auto simp add: filter_rest_at)
    then have i: "i < length xs" by simp
    then have pi: "p (xs ! i)" using c by simp
    have v: "v = xs ! i" "vs = filter p (drop (Suc i) xs)"
      using r c i pi by (simp_all add: filter_rest_at Cons_nth_drop_Suc [symmetric])
    have "FilterIterator_neq c ?e"
      using c i by (simp add: FilterIterator_neq_def FilterIterator_eq_def filter_at_def)
    moreover have "FilterIterator_deref c = Some v"
      using c i v by (simp add: FilterIterator_deref_def filter_at_def std_deref_def)
    moreover have "FilterIterator_inc c = Some (filter_at xs (skip_to p xs (Suc i)) p)"
      using c i by (simp add: FilterIterator_inc_at)
    moreover have "filter_inv xs p (filter_at xs (skip_to p xs (Suc i)) p)"
      using i by (intro filter_inv_skip) simp
    moreover have "filter_rest (filter_at xs (skip_to p xs (Suc i)) p) = vs"
      using i v by (simp add: filter_rest_at filter_skip_to)
    ultimately show "FilterIterator_neq c ?e \<and> FilterIterator_deref c = Some v \<and>
        (\<exists>c'. FilterIterator_inc c = Some c' \<and> filter_inv xs p c' \<and> filter_rest c' = vs)"
      by blast
  qed
  then show ?thesis using assms by (simp add: filter_rest_at filter_skip_to)
qed

lemma FilteredBase_begin_at:
  "FilteredBase_begin xs p = Some (filter_at xs (skip_to p xs 0) p)"
  using SkipFilteredEntries_at [of 0 xs p]
  by (simp add: FilteredBase_begin_def FilterIterator_new_def std_begin_def std_end_def filter_at_def)

lemma FilteredBase_end_at:
  "FilteredBase_end xs p = Some (filter_at xs (length xs) p)"
  using SkipFilteredEntries_at [of "length xs" xs p]
  by (simp add: FilteredBase_end_def FilterIterator_new_def std_end_def filter_at_def skip_to_end)

lemma Filtered_forward_eq: "Filtered_forward xs p = Some (filter p xs)"
  using filter_loop [of 0 xs push_back p "[]"]
  by (simp add: Filtered_forward_def FilteredBase_begin_at FilteredBase_end_at fold_push_back)

lemma fold_count: "fold (\<lambda>v. Suc) vs n = n + length vs"
  by (induction vs arbitrary: n) simp_all

lemma FilteredBase_Size_eq: "FilteredBase_Size xs p = Some (length (filter p xs))"
  using filter_loop [of 0 xs "\<lambda>v result. result + 1" p "0::nat"]
  by (simp add: FilteredBase_Size_def FilteredBase_begin_at FilteredBase_end_at fold_count)

lemma FilteredBase_IsEmpty_eq: "FilteredBase_IsEmpty xs p = Some (filter p xs = [])"
proof (cases "skip_to p xs 0 = length xs")
  case True
  then have "filter p xs = []" using filter_skip_to [of 0 xs p] by simp
  then show ?thesis using True
    by (simp add: FilteredBase_IsEmpty_def FilteredBase_begin_at FilteredBase_end_at
        FilterIterator_neq_def FilterIterator_eq_def)
next
  case False
  then have lt: "skip_to p xs 0 < length xs" using skip_to_le [of 0 xs p] by simp
  then have "p (xs ! skip_to p xs 0)" using skip_to_holds [of 0 xs p] by simp
  then have "xs ! skip_to p xs 0 \<in> set (filter p xs)" using lt by simp
  then have "filter p xs \<noteq> []" by (auto simp add: filter_empty_conv)
  then show ?thesis using False lt
    by (simp add: FilteredBase_IsEmpty_def FilteredBase_begin_at FilteredBase_end_at
        FilterIterator_neq_def FilterIterator_eq_def filter_at_def FilterIterator_deref_def
        std_deref_def)
qed

text \<open>
  C5. Traversal of \<open>Filter(S, pred)\<close> returns and yields the elements of \<open>S\<close> that satisfy
  \<open>pred\<close>, in their order in \<open>S\<close>. Constructing a cursor of the view returns; a cursor
  just constructed (over any pair of source cursors) or just advanced that is not at the
  end reads an element that satisfies \<open>pred\<close>. \<open>empty()\<close> returns true exactly when no
  element of \<open>S\<close> satisfies \<open>pred\<close>, and \<open>size()\<close> returns the number of elements of \<open>S\<close>
  that satisfy it.
\<close>

theorem Filter_traversal_cursor_empty_size:
  "Filtered_forward (S :: 'a list) pred = Some (filter pred S)
   \<and> (\<exists>it. FilteredBase_begin S pred = Some it)
   \<and> (\<forall>b e it. FilterIterator_new b e pred = Some it \<longrightarrow> \<not> FilterIterator_IsEnd it \<longrightarrow>
         (\<exists>v. FilterIterator_deref it = Some v \<and> pred v))
   \<and> (\<forall>it it' :: 'a FilterIterator.
         FilterIterator_inc it = Some it' \<longrightarrow> \<not> FilterIterator_IsEnd it' \<longrightarrow>
         (\<exists>v. FilterIterator_deref it' = Some v \<and> f_filter it v))
   \<and> FilteredBase_IsEmpty S pred = Some (\<forall>x \<in> set S. \<not> pred x)
   \<and> FilteredBase_Size S pred = Some (length (filter pred S))"
proof -
  have new: "\<exists>v. FilterIterator_deref it = Some v \<and> pred v"
    if "FilterIterator_new b e pred = Some it" "\<not> FilterIterator_IsEnd it" for b e it
    using SkipFilteredEntries_post [OF that(1) [unfolded FilterIterator_new_def]] that(2)
    by (auto simp add: FilterIterator_deref_def)
  have inc: "\<exists>v. FilterIterator_deref it' = Some v \<and> f_filter it v"
    if "FilterIterator_inc it = Some it'" "\<not> FilterIterator_IsEnd it'" for it it' :: "'a FilterIterator"
  proof -
    from that(1) obtain b where "SkipFilteredEntries (it\<lparr>f_begin := b\<rparr>) = Some it'"
      by (auto simp add: FilterIterator_inc_def split: Option.bind_splits)
    from SkipFilteredEntries_post [OF this] that(2) show ?thesis
      by (auto simp add: FilterIterator_deref_def)
  qed
  have emp: "(filter pred S = []) \<longleftrightarrow> (\<forall>x \<in> set S. \<not> pred x)"
    by (simp add: filter_empty_conv)
  have c2: "\<forall>b e it. FilterIterator_new b e pred = Some it \<longrightarrow> \<not> FilterIterator_IsEnd it \<longrightarrow>
         (\<exists>v. FilterIterator_deref it = Some v \<and> pred v)"
    using new by blast
  have c3: "\<forall>it it' :: 'a FilterIterator. FilterIterator_inc it = Some it' \<longrightarrow>
         \<not> FilterIterator_IsEnd it' \<longrightarrow> (\<exists>v. FilterIterator_deref it' = Some v \<and> f_filter it v)"
    using inc by blast
  have c1: "\<exists>it. FilteredBase_begin S pred = Some it" by (simp add: FilteredBase_begin_at)
  have c4: "FilteredBase_IsEmpty S pred = Some (\<forall>x \<in> set S. \<not> pred x)"
    by (simp only: FilteredBase_IsEmpty_eq emp)
  from Filtered_forward_eq [of S pred] c1 c2 c3 c4 FilteredBase_Size_eq [of S pred]
  show ?thesis by (intro conjI)
qed

theorem Filter_traversal_cursor_empty_size_witness:
  "Filtered_forward [0, 0, 0, 1, 2, 2, 2, 3, 4, 4, 4 :: int] odd = Some [1, 3]
   \<and> FilteredBase_IsEmpty [0, 0, 0, 1, 2, 2, 2, 3, 4, 4, 4 :: int] odd = Some False
   \<and> FilteredBase_Size [0, 0, 0, 1, 2, 2, 2, 3, 4, 4, 4 :: int] odd = Some 2
   \<and> FilterIterator_new (std_begin [0, 1 :: int]) (std_end [0, 1]) odd = Some (filter_at [0, 1] 1 odd)
   \<and> \<not> FilterIterator_IsEnd (filter_at [0, 1 :: int] 1 odd)
   \<and> (\<exists>v. FilterIterator_deref (filter_at [0, 1 :: int] 1 odd) = Some v \<and> odd v)
   \<and> FilterIterator_inc (filter_at [1, 2, 3 :: int] 0 odd) = Some (filter_at [1, 2, 3] 2 odd)
   \<and> \<not> FilterIterator_IsEnd (filter_at [1, 2, 3 :: int] 2 odd)
   \<and> (\<exists>v. FilterIterator_deref (filter_at [1, 2, 3 :: int] 2 odd) = Some v \<and> odd v)"
proof -
  note inst = Filter_traversal_cursor_empty_size [of "[0, 0, 0, 1, 2, 2, 2, 3, 4, 4, 4 :: int]" odd]
  have a1: "Filtered_forward [0, 0, 0, 1, 2, 2, 2, 3, 4, 4, 4 :: int] odd = Some [1, 3]"
    using inst [THEN conjunct1] by simp
  have a2: "FilteredBase_IsEmpty [0, 0, 0, 1, 2, 2, 2, 3, 4, 4, 4 :: int] odd = Some False"
    using inst [THEN conjunct2, THEN conjunct2, THEN conjunct2, THEN conjunct2, THEN conjunct1]
    by simp
  have a3: "FilteredBase_Size [0, 0, 0, 1, 2, 2, 2, 3, 4, 4, 4 :: int] odd = Some 2"
    using inst [THEN conjunct2, THEN conjunct2, THEN conjunct2, THEN conjunct2, THEN conjunct2]
    by simp
  note a = a1 a2 a3
  have n: "FilterIterator_new (std_begin [0, 1 :: int]) (std_end [0, 1]) odd
             = Some (filter_at [0, 1] 1 odd)"
    using FilteredBase_begin_at [of "[0, 1 :: int]" odd]
    by (simp add: FilteredBase_begin_def skip_to_def)
  have ne: "\<not> FilterIterator_IsEnd (filter_at [0, 1 :: int] 1 odd)"
    by (simp add: FilterIterator_IsEnd_def filter_at_def)
  have i: "FilterIterator_inc (filter_at [1, 2, 3 :: int] 0 odd) = Some (filter_at [1, 2, 3] 2 odd)"
    using FilterIterator_inc_at [of 0 "[1, 2, 3 :: int]" odd]
    by (simp add: skip_to_def numeral_2_eq_2)
  have ie: "\<not> FilterIterator_IsEnd (filter_at [1, 2, 3 :: int] 2 odd)"
    by (simp add: FilterIterator_IsEnd_def filter_at_def)
  have fo: "f_filter (filter_at [1, 2, 3 :: int] 0 odd) = odd"
    by (simp add: filter_at_def)
  from inst n ne have d1: "\<exists>v. FilterIterator_deref (filter_at [0, 1 :: int] 1 odd) = Some v \<and> odd v"
    by blast
  from inst i ie have "\<exists>v. FilterIterator_deref (filter_at [1, 2, 3 :: int] 2 odd) = Some v
       \<and> f_filter (filter_at [1, 2, 3 :: int] 0 odd) v"
    by blast
  then have d2: "\<exists>v. FilterIterator_deref (filter_at [1, 2, 3 :: int] 2 odd) = Some v \<and> odd v"
    by (simp only: fo)
  show ?thesis using a n ne d1 i ie d2 by blast
qed

section \<open>Chain: the skip loop and traversal\<close>

lemma std_iterator_eq: "a = b \<longleftrightarrow> elems a = elems b \<and> pos a = pos b"
  for a b :: "'a std_iterator"
  by (cases a, cases b) simp

lemma chain_wf_IsAtEnd:
  "chain_wf it \<Longrightarrow>
     ChainedIterator_IsAtEnd it \<longleftrightarrow> pos (outer_begin it) = length (elems (outer_begin it))"
proof -
  assume "chain_wf it"
  then have e: "outer_end it = \<lparr>elems = elems (outer_begin it), pos = length (elems (outer_begin it))\<rparr>"
    by (simp add: chain_wf_def)
  show ?thesis unfolding ChainedIterator_IsAtEnd_def e
    by (simp add: std_iterator_eq)
qed

lemma chain_wf_IsAtEndOfInner:
  "chain_wf it \<Longrightarrow> \<not> ChainedIterator_IsAtEnd it \<Longrightarrow>
     IsAtEndOfInnerCollection it \<longleftrightarrow> pos (inner_begin it) = length (elems (inner_begin it))"
proof -
  assume "chain_wf it" "\<not> ChainedIterator_IsAtEnd it"
  then have e: "elems (inner_end it) = elems (inner_begin it)"
      "pos (inner_end it) = length (elems (inner_begin it))"
    by (simp_all add: chain_wf_def)
  show ?thesis unfolding IsAtEndOfInnerCollection_def
    using e by (simp add: std_iterator_eq)
qed

text \<open>One round of the skip loop consumes one outer element.\<close>

lemma AdvanceOuterCollection_consumes:
  "AdvanceOuterCollection it = Some it' \<Longrightarrow>
     pos (outer_begin it) < length (elems (outer_begin it))
     \<and> pos (outer_begin it') = Suc (pos (outer_begin it))
     \<and> chain_same it it'"
  by (auto simp add: AdvanceOuterCollection_def InitializeInnerCollection_def std_inc_def
      chain_same_def split: Option.bind_splits if_splits)

lemma AdvanceOuterCollection_wf:
  assumes wf: "chain_wf it" and ne: "\<not> ChainedIterator_IsAtEnd it"
    and ie: "IsAtEndOfInnerCollection it"
  shows "\<exists>it'. AdvanceOuterCollection it = Some it' \<and> chain_wf it' \<and> chain_rest it' = chain_rest it"
proof -
  let ?os = "elems (outer_begin it)" and ?i = "pos (outer_begin it)"
  let ?gb = "get_inner_begin it" and ?ge = "get_inner_end it"
  from wf ne have i: "?i < length ?os"
    using chain_wf_IsAtEnd [OF wf] by (simp add: chain_wf_def)
  from wf have oe: "outer_end it = \<lparr>elems = ?os, pos = length ?os\<rparr>"
    and g: "getters_wf ?gb ?ge"
    by (simp_all add: chain_wf_def)
  have inc: "std_inc (outer_begin it) = Some ((outer_begin it)\<lparr>pos := Suc ?i\<rparr>)"
    using i by (simp add: std_inc_def)
  have here: "drop (pos (inner_begin it)) (elems (inner_begin it)) = []"
    using chain_wf_IsAtEndOfInner [OF wf ne] ie by simp
  show ?thesis
  proof (cases "Suc ?i = length ?os")
    case True
    let ?it' = "it\<lparr>outer_begin := (outer_begin it)\<lparr>pos := Suc ?i\<rparr>\<rparr>"
    have end': "ChainedIterator_IsAtEnd ?it'"
      using True oe by (simp add: ChainedIterator_IsAtEnd_def std_iterator_eq)
    then have "AdvanceOuterCollection it = Some ?it'"
      by (simp add: AdvanceOuterCollection_def inc InitializeInnerCollection_def)
    moreover have "chain_wf ?it'"
      using True oe g end' by (simp add: chain_wf_def)
    moreover have "chain_rest ?it' = chain_rest it"
      using end' ne here True by (simp add: chain_rest_def)
    ultimately show ?thesis by blast
  next
    case False
    then have i': "Suc ?i < length ?os" using i by simp
    let ?c = "?os ! Suc ?i"
    let ?it' = "it\<lparr>outer_begin := (outer_begin it)\<lparr>pos := Suc ?i\<rparr>,
                   inner_begin := ?gb ?c, inner_end := ?ge ?c\<rparr>"
    have ne': "\<not> ChainedIterator_IsAtEnd (it\<lparr>outer_begin := (outer_begin it)\<lparr>pos := Suc ?i\<rparr>\<rparr>)"
      using False oe by (simp add: ChainedIterator_IsAtEnd_def std_iterator_eq)
    have ne'': "\<not> ChainedIterator_IsAtEnd ?it'"
      using ne' by (simp add: ChainedIterator_IsAtEnd_def)
    have "AdvanceOuterCollection it = Some ?it'"
      using i' ne' by (simp add: AdvanceOuterCollection_def inc InitializeInnerCollection_def
          std_deref_def)
    moreover have "chain_wf ?it'"
      using i' oe g by (simp add: chain_wf_def getters_wf_def)
    moreover have "chain_rest ?it' = chain_rest it"
      using ne ne'' here i' by (simp add: chain_rest_def inner_walk_def Cons_nth_drop_Suc [symmetric])
    ultimately show ?thesis by blast
  qed
qed

text \<open>The skip loop returns on every well-formed cursor, with a well-formed cursor that
  is at the end or on an element, and with the same elements still to come.\<close>

lemma SkipEmptyInnerCollections_wf:
  "chain_wf it \<Longrightarrow>
   \<exists>it'. SkipEmptyInnerCollections it = Some it' \<and> chain_wf it' \<and> chain_same it it'
       \<and> (ChainedIterator_IsAtEnd it' \<or> \<not> IsAtEndOfInnerCollection it')
       \<and> chain_rest it' = chain_rest it"
proof (induction "length (elems (outer_begin it)) - pos (outer_begin it)" arbitrary: it)
  case 0
  then have "ChainedIterator_IsAtEnd it"
    using chain_wf_IsAtEnd [of it] by (simp add: chain_wf_def)
  then have "SkipEmptyInnerCollections it = Some it"
    by (subst SkipEmptyInnerCollections.simps) simp
  then show ?case using 0 \<open>ChainedIterator_IsAtEnd it\<close> by (simp add: chain_same_def)
next
  case (Suc n)
  show ?case
  proof (cases "\<not> ChainedIterator_IsAtEnd it \<and> IsAtEndOfInnerCollection it")
    case False
    then have "SkipEmptyInnerCollections it = Some it"
      by (subst SkipEmptyInnerCollections.simps) auto
    then show ?thesis using Suc.prems False by (auto simp add: chain_same_def)
  next
    case True
    with AdvanceOuterCollection_wf [OF Suc.prems]
    obtain it1 where it1: "AdvanceOuterCollection it = Some it1" "chain_wf it1"
        "chain_rest it1 = chain_rest it"
      by blast
    from AdvanceOuterCollection_consumes [OF it1(1)]
    have adv: "pos (outer_begin it1) = Suc (pos (outer_begin it))" "chain_same it it1"
      by simp_all
    then have "n = length (elems (outer_begin it1)) - pos (outer_begin it1)"
      using Suc.hyps(2) by (simp add: chain_same_def)
    from Suc.hyps(1) [OF this it1(2)]
    obtain it' where it': "SkipEmptyInnerCollections it1 = Some it'" "chain_wf it'"
        "chain_same it1 it'" "ChainedIterator_IsAtEnd it' \<or> \<not> IsAtEndOfInnerCollection it'"
        "chain_rest it' = chain_rest it1"
      by blast
    have "SkipEmptyInnerCollections it = Some it'"
      using True it1(1) it'(1) by (subst SkipEmptyInnerCollections.simps) simp
    moreover have "chain_same it it'"
      using adv(2) it'(3) by (simp add: chain_same_def)
    ultimately show ?thesis using it' it1(3) by simp
  qed
qed

text \<open>Whatever the cursor it starts from, the skip loop returns only cursors that are at
  the end or not at the end of their inner collection.\<close>

lemma SkipEmptyInnerCollections_post:
  "SkipEmptyInnerCollections it = Some it' \<Longrightarrow>
     ChainedIterator_IsAtEnd it' \<or> \<not> IsAtEndOfInnerCollection it'"
proof (induction rule: SkipEmptyInnerCollections.raw_induct [rotated 1, consumes 1])
  case (1 skip it it')
  show ?case
  proof (cases "\<not> ChainedIterator_IsAtEnd it \<and> IsAtEndOfInnerCollection it")
    case True
    with 1(2) obtain it1 where "skip it1 = Some it'"
      by (auto split: option.splits)
    then show ?thesis by (rule 1(1))
  next
    case False
    with 1(2) have "it' = it" by auto
    then show ?thesis using False by auto
  qed
qed

lemma InitializeInnerCollection_wf:
  assumes i: "i \<le> length os" and g: "getters_wf gb ge"
  shows "\<exists>it. InitializeInnerCollection
             \<lparr>outer_begin = \<lparr>elems = os, pos = i\<rparr>, outer_end = \<lparr>elems = os, pos = length os\<rparr>,
              inner_begin = ib, inner_end = ie, get_inner_begin = gb, get_inner_end = ge\<rparr> = Some it
          \<and> chain_wf it \<and> chain_rest it = concat (map (inner_walk gb) (drop i os))
          \<and> outer_end it = \<lparr>elems = os, pos = length os\<rparr>"
proof (cases "i = length os")
  case True
  then show ?thesis using g
    by (simp add: InitializeInnerCollection_def ChainedIterator_IsAtEnd_def chain_wf_def
        chain_rest_def)
next
  case False
  then have lt: "i < length os" using i by simp
  have d: "drop i os = os ! i # drop (Suc i) os"
    using lt by (simp add: Cons_nth_drop_Suc)
  show ?thesis using False lt g
    by (simp add: InitializeInnerCollection_def ChainedIterator_IsAtEnd_def chain_wf_def
        chain_rest_def std_deref_def getters_wf_def d inner_walk_def)
qed

lemma ChainedIterator_new_wf:
  assumes i: "i \<le> length os" and g: "getters_wf gb ge"
  shows "\<exists>it. ChainedIterator_new \<lparr>elems = os, pos = i\<rparr> \<lparr>elems = os, pos = length os\<rparr> gb ge = Some it
          \<and> chain_wf it \<and> (ChainedIterator_IsAtEnd it \<or> \<not> IsAtEndOfInnerCollection it)
          \<and> chain_rest it = concat (map (inner_walk gb) (drop i os))
          \<and> outer_end it = \<lparr>elems = os, pos = length os\<rparr>"
proof -
  from InitializeInnerCollection_wf [OF i g, of singular_iterator singular_iterator]
  obtain it0 where it0: "InitializeInnerCollection
             \<lparr>outer_begin = \<lparr>elems = os, pos = i\<rparr>, outer_end = \<lparr>elems = os, pos = length os\<rparr>,
              inner_begin = singular_iterator, inner_end = singular_iterator,
              get_inner_begin = gb, get_inner_end = ge\<rparr> = Some it0"
      "chain_wf it0" "chain_rest it0 = concat (map (inner_walk gb) (drop i os))"
      "outer_end it0 = \<lparr>elems = os, pos = length os\<rparr>"
    by blast
  from SkipEmptyInnerCollections_wf [OF it0(2)]
  obtain it where it: "SkipEmptyInnerCollections it0 = Some it" "chain_wf it" "chain_same it0 it"
      "ChainedIterator_IsAtEnd it \<or> \<not> IsAtEndOfInnerCollection it" "chain_rest it = chain_rest it0"
    by blast
  have "ChainedIterator_new \<lparr>elems = os, pos = i\<rparr> \<lparr>elems = os, pos = length os\<rparr> gb ge = Some it"
    by (simp add: ChainedIterator_new_def it0(1) it(1))
  then show ?thesis using it it0 by (simp add: chain_same_def)
qed

lemma ChainedIterator_inc_wf:
  assumes wf: "chain_wf it" and ne: "\<not> ChainedIterator_IsAtEnd it"
    and ni: "\<not> IsAtEndOfInnerCollection it"
  shows "\<exists>v it'. ChainedIterator_deref it = Some v \<and> ChainedIterator_inc it = Some it'
          \<and> chain_wf it' \<and> (ChainedIterator_IsAtEnd it' \<or> \<not> IsAtEndOfInnerCollection it')
          \<and> chain_same it it' \<and> chain_rest it = v # chain_rest it'"
proof -
  let ?xs = "elems (inner_begin it)" and ?j = "pos (inner_begin it)"
  from wf ne have le: "?j \<le> length ?xs" by (simp add: chain_wf_def)
  with chain_wf_IsAtEndOfInner [OF wf ne] ni have j: "?j < length ?xs" by simp
  let ?it1 = "it\<lparr>inner_begin := (inner_begin it)\<lparr>pos := Suc ?j\<rparr>\<rparr>"
  have wf1: "chain_wf ?it1"
    using wf ne j unfolding chain_wf_def ChainedIterator_IsAtEnd_def by auto
  have ne1: "\<not> ChainedIterator_IsAtEnd ?it1"
    using ne by (simp add: ChainedIterator_IsAtEnd_def)
  have rest: "chain_rest it = ?xs ! ?j # chain_rest ?it1"
    using ne ne1 j by (simp add: chain_rest_def Cons_nth_drop_Suc)
  from SkipEmptyInnerCollections_wf [OF wf1]
  obtain it' where it': "SkipEmptyInnerCollections ?it1 = Some it'" "chain_wf it'"
      "chain_same ?it1 it'" "ChainedIterator_IsAtEnd it' \<or> \<not> IsAtEndOfInnerCollection it'"
      "chain_rest it' = chain_rest ?it1"
    by blast
  have "ChainedIterator_deref it = Some (?xs ! ?j)"
    using j by (simp add: ChainedIterator_deref_def std_deref_def)
  moreover have "ChainedIterator_inc it = Some it'"
    using j it'(1) by (simp add: ChainedIterator_inc_def std_inc_def)
  moreover have "chain_same it it'" using it'(3) by (simp add: chain_same_def)
  ultimately show ?thesis using it' rest by simp
qed

lemma chain_loop:
  assumes en: "ChainedIterator_IsAtEnd en" and inv: "chain_inv it"
  shows "range_for ChainedIterator_neq ChainedIterator_deref ChainedIterator_inc push_back it en acc
         = Some (acc @ chain_rest it)"
proof -
  have "range_for ChainedIterator_neq ChainedIterator_deref ChainedIterator_inc push_back it en acc
         = Some (fold push_back (chain_rest it) acc)"
  proof (rule range_for_fold [where I = chain_inv], rule inv)
    fix c :: "'a ChainedIterator"
    assume c: "chain_inv c" and r: "chain_rest c = []"
    have "ChainedIterator_IsAtEnd c"
    proof (rule ccontr)
      assume ne: "\<not> ChainedIterator_IsAtEnd c"
      with c have wf: "chain_wf c" and ni: "\<not> IsAtEndOfInnerCollection c"
        by (simp_all add: chain_inv_def)
      from ChainedIterator_inc_wf [OF wf ne ni] r show False by auto
    qed
    then show "\<not> ChainedIterator_neq c en"
      using en by (simp add: ChainedIterator_neq_def ChainedIterator_eq_def)
  next
    fix c :: "'a ChainedIterator" and v vs
    assume c: "chain_inv c" and r: "chain_rest c = v # vs"
    then have ne: "\<not> ChainedIterator_IsAtEnd c" by (auto simp add: chain_rest_def)
    with c have wf: "chain_wf c" and ni: "\<not> IsAtEndOfInnerCollection c"
      by (simp_all add: chain_inv_def)
    from ChainedIterator_inc_wf [OF wf ne ni] r
    obtain c' where "ChainedIterator_deref c = Some v" "ChainedIterator_inc c = Some c'"
        "chain_inv c'" "chain_rest c' = vs"
      by (auto simp add: chain_inv_def)
    moreover have "ChainedIterator_neq c en"
      using en ne by (simp add: ChainedIterator_neq_def ChainedIterator_eq_def)
    ultimately show "ChainedIterator_neq c en \<and> ChainedIterator_deref c = Some v \<and>
        (\<exists>c'. ChainedIterator_inc c = Some c' \<and> chain_inv c' \<and> chain_rest c' = vs)"
      by blast
  qed
  then show ?thesis by (simp add: fold_push_back)
qed

lemma chain_walk:
  assumes g: "getters_wf gb ge"
  shows "Chained_for
           (ChainedIterator_new \<lparr>elems = os, pos = 0\<rparr> \<lparr>elems = os, pos = length os\<rparr> gb ge)
           (ChainedIterator_new \<lparr>elems = os, pos = length os\<rparr> \<lparr>elems = os, pos = length os\<rparr> gb ge)
         = Some (concat (map (inner_walk gb) os))"
proof -
  from ChainedIterator_new_wf [OF _ g, of 0 os]
  obtain b where b: "ChainedIterator_new \<lparr>elems = os, pos = 0\<rparr> \<lparr>elems = os, pos = length os\<rparr> gb ge = Some b"
      "chain_inv b" "chain_rest b = concat (map (inner_walk gb) os)"
    by (auto simp add: chain_inv_def)
  from ChainedIterator_new_wf [OF _ g, of "length os" os]
  obtain e where e: "ChainedIterator_new \<lparr>elems = os, pos = length os\<rparr> \<lparr>elems = os, pos = length os\<rparr> gb ge = Some e"
      "chain_wf e" "chain_rest e = []"
    by auto
  have "ChainedIterator_IsAtEnd e"
  proof (rule ccontr)
    assume ne: "\<not> ChainedIterator_IsAtEnd e"
    from ChainedIterator_new_wf [OF _ g, of "length os" os] e(1)
    have "ChainedIterator_IsAtEnd e \<or> \<not> IsAtEndOfInnerCollection e" by auto
    with ne have "\<not> IsAtEndOfInnerCollection e" by simp
    from ChainedIterator_inc_wf [OF e(2) ne this] e(3) show False by auto
  qed
  from chain_loop [OF this b(2), of "[]"] show ?thesis
    by (simp add: Chained_for_def b e)
qed

lemma getters_wf_forward: "getters_wf std_begin std_end"
  by (simp add: getters_wf_def std_begin_def std_end_def)

lemma getters_wf_reverse: "getters_wf std_rbegin std_rend"
  by (simp add: getters_wf_def std_rbegin_def std_rend_def)

lemma Chained_forward_eq: "Chained_forward data = Some (concat data)"
proof -
  have "map (inner_walk std_begin) data = data"
    by (induction data) (simp_all add: inner_walk_def std_begin_def)
  then show ?thesis
    using chain_walk [OF getters_wf_forward, of data]
    by (simp add: Chained_forward_def ChainedBase_begin_def ChainedBase_end_def
        std_begin_def [of data] std_end_def [of data])
qed

lemma Chained_reverse_eq: "Chained_reverse data = Some (rev (concat data))"
proof -
  have "inner_walk std_rbegin = (rev :: 'a list \<Rightarrow> 'a list)"
    by (simp add: fun_eq_iff inner_walk_def std_rbegin_def)
  then show ?thesis
    using chain_walk [OF getters_wf_reverse, of "rev data"]
    by (simp add: Chained_reverse_def Chained_rbegin_def Chained_rend_def
        std_rbegin_def [of data] std_rend_def [of data] rev_concat)
qed

lemma ChainedBase_IsEmpty_iff: "ChainedBase_IsEmpty data \<longleftrightarrow> (\<forall>c \<in> set data. c = [])"
  by (induction data) simp_all

lemma ChainedBase_Size_loop_eq:
  "ChainedBase_Size_loop data result = result + sum_list (map length data)"
  by (induction data arbitrary: result) simp_all

lemma ChainedBase_Size_eq: "ChainedBase_Size data = sum_list (map length data)"
  by (simp add: ChainedBase_Size_def ChainedBase_Size_loop_eq)

lemmas chain_eval =
  SkipEmptyInnerCollections.simps AdvanceOuterCollection_def InitializeInnerCollection_def
  ChainedIterator_IsAtEnd_def IsAtEndOfInnerCollection_def ChainedIterator_inc_def
  ChainedIterator_new_def ChainedBase_begin_def
  std_inc_def std_deref_def std_begin_def std_end_def chain_at_def singular_iterator_def

text \<open>
  C4. Forward traversal of \<open>Chain\<close> returns and yields the concatenation of the inner
  sequences in order, empty inner sequences contributing nothing; over an empty outer
  sequence it yields nothing. An advance that returns leaves the cursor at the outer end
  or on an element of an inner sequence. \<open>empty()\<close> holds exactly when every inner
  sequence is empty, and \<open>size()\<close> is the sum of the sizes of the inner sequences, the
  number of elements the traversal yields.
\<close>

theorem Chain_traversal_concat_empty_size:
  "Chained_forward (data :: 'a list list) = Some (concat data)
   \<and> Chained_forward ([] :: 'a list list) = Some []
   \<and> Chained_forward [[], [], [1 :: int, 2, 3]] = Some [1, 2, 3]
   \<and> Chained_forward [[1 :: int], [], [], [2, 3], []] = Some [1, 2, 3]
   \<and> (\<forall>it it' :: 'a ChainedIterator.
         ChainedIterator_inc it = Some it' \<longrightarrow>
         ChainedIterator_IsAtEnd it' \<or> \<not> IsAtEndOfInnerCollection it')
   \<and> (ChainedBase_IsEmpty data \<longleftrightarrow> (\<forall>c \<in> set data. c = []))
   \<and> ChainedBase_Size data = sum_list (map length data)
   \<and> ChainedBase_Size data = length (concat data)"
proof -
  have inc: "\<forall>it it' :: 'a ChainedIterator.
         ChainedIterator_inc it = Some it' \<longrightarrow>
         ChainedIterator_IsAtEnd it' \<or> \<not> IsAtEndOfInnerCollection it'"
  proof (intro allI impI)
    fix it it' :: "'a ChainedIterator"
    assume "ChainedIterator_inc it = Some it'"
    then obtain b where "SkipEmptyInnerCollections (it\<lparr>inner_begin := b\<rparr>) = Some it'"
      by (auto simp add: ChainedIterator_inc_def split: Option.bind_splits)
    then show "ChainedIterator_IsAtEnd it' \<or> \<not> IsAtEndOfInnerCollection it'"
      by (rule SkipEmptyInnerCollections_post)
  qed
  have len: "sum_list (map length data) = length (concat data)"
    by (simp add: length_concat)
  from inc len show ?thesis
    by (simp add: Chained_forward_eq ChainedBase_IsEmpty_iff ChainedBase_Size_eq)
qed

theorem Chain_traversal_concat_empty_size_witness:
  "Chained_forward [[1 :: int], [], [], [2, 3], []] = Some [1, 2, 3]
   \<and> \<not> ChainedBase_IsEmpty [[1 :: int], [], [], [2, 3], []]
   \<and> ChainedBase_Size [[1 :: int], [], [], [2, 3], []] = 3
   \<and> ChainedIterator_inc (chain_at [[1 :: int], [], [2]] 0 [1] 0) = Some (chain_at [[1], [], [2]] 2 [2] 0)
   \<and> (ChainedIterator_IsAtEnd (chain_at [[1 :: int], [], [2]] 2 [2] 0)
        \<or> \<not> IsAtEndOfInnerCollection (chain_at [[1 :: int], [], [2]] 2 [2] 0))"
proof -
  note inst = Chain_traversal_concat_empty_size [of "[[1 :: int], [], [], [2, 3], []]"]
  have a1: "Chained_forward [[1 :: int], [], [], [2, 3], []] = Some [1, 2, 3]"
    using inst [THEN conjunct1] by simp
  have a2: "\<not> ChainedBase_IsEmpty [[1 :: int], [], [], [2, 3], []]"
    using inst by simp
  have a3: "ChainedBase_Size [[1 :: int], [], [], [2, 3], []] = 3"
    using inst by simp
  have i: "ChainedIterator_inc (chain_at [[1 :: int], [], [2]] 0 [1] 0)
             = Some (chain_at [[1], [], [2]] 2 [2] 0)"
    by (simp add: chain_eval)
  from inst i have "ChainedIterator_IsAtEnd (chain_at [[1 :: int], [], [2]] 2 [2] 0)
        \<or> \<not> IsAtEndOfInnerCollection (chain_at [[1 :: int], [], [2]] 2 [2] 0)"
    by blast
  with a1 a2 a3 i show ?thesis by blast
qed

text \<open>
  C8. The skip loop returns on every well-formed cursor, and the cursor it returns is
  well-formed and is at the outer end or on an element. Each round of the loop
  (\<open>AdvanceOuterCollection\<close>) moves the outer cursor one element forward within its walk,
  which has finitely many elements left. So constructing the cursors of a view returns,
  and so does advancing a well-formed cursor that is on an element.
\<close>

theorem Chain_skip_loop_returns:
  "(chain_wf (it :: 'a ChainedIterator) \<longrightarrow>
      (\<exists>it'. SkipEmptyInnerCollections it = Some it' \<and> chain_wf it'
          \<and> (ChainedIterator_IsAtEnd it' \<or> \<not> IsAtEndOfInnerCollection it')))
   \<and> (\<forall>it1. AdvanceOuterCollection it = Some it1 \<longrightarrow>
         pos (outer_begin it) < length (elems (outer_begin it))
         \<and> pos (outer_begin it1) = Suc (pos (outer_begin it))
         \<and> elems (outer_begin it1) = elems (outer_begin it)
         \<and> outer_end it1 = outer_end it)
   \<and> (\<exists>b. ChainedBase_begin (data :: 'a list list) = Some b \<and> chain_wf b
          \<and> (ChainedIterator_IsAtEnd b \<or> \<not> IsAtEndOfInnerCollection b))
   \<and> (\<exists>e. ChainedBase_end data = Some e \<and> chain_wf e)
   \<and> (\<exists>b. Chained_rbegin data = Some b \<and> chain_wf b
          \<and> (ChainedIterator_IsAtEnd b \<or> \<not> IsAtEndOfInnerCollection b))
   \<and> (\<exists>e. Chained_rend data = Some e \<and> chain_wf e)
   \<and> (chain_wf it \<longrightarrow> \<not> ChainedIterator_IsAtEnd it \<longrightarrow> \<not> IsAtEndOfInnerCollection it \<longrightarrow>
        (\<exists>it'. ChainedIterator_inc it = Some it' \<and> chain_wf it'
           \<and> (ChainedIterator_IsAtEnd it' \<or> \<not> IsAtEndOfInnerCollection it')))"
proof -
  have c1: "chain_wf it \<longrightarrow>
      (\<exists>it'. SkipEmptyInnerCollections it = Some it' \<and> chain_wf it'
          \<and> (ChainedIterator_IsAtEnd it' \<or> \<not> IsAtEndOfInnerCollection it'))"
  proof
    assume "chain_wf it"
    from SkipEmptyInnerCollections_wf [OF this]
    obtain it' where "SkipEmptyInnerCollections it = Some it'" "chain_wf it'"
        "ChainedIterator_IsAtEnd it' \<or> \<not> IsAtEndOfInnerCollection it'"
      by blast
    then show "\<exists>it'. SkipEmptyInnerCollections it = Some it' \<and> chain_wf it'
          \<and> (ChainedIterator_IsAtEnd it' \<or> \<not> IsAtEndOfInnerCollection it')"
      by (intro exI [of _ it']) simp
  qed
  have c2: "\<forall>it1. AdvanceOuterCollection it = Some it1 \<longrightarrow>
         pos (outer_begin it) < length (elems (outer_begin it))
         \<and> pos (outer_begin it1) = Suc (pos (outer_begin it))
         \<and> elems (outer_begin it1) = elems (outer_begin it)
         \<and> outer_end it1 = outer_end it"
  proof (intro allI impI)
    fix it1 assume "AdvanceOuterCollection it = Some it1"
    from AdvanceOuterCollection_consumes [OF this]
    show "pos (outer_begin it) < length (elems (outer_begin it))
         \<and> pos (outer_begin it1) = Suc (pos (outer_begin it))
         \<and> elems (outer_begin it1) = elems (outer_begin it)
         \<and> outer_end it1 = outer_end it"
      by (simp add: chain_same_def)
  qed
  have c3: "\<exists>b. ChainedBase_begin data = Some b \<and> chain_wf b
          \<and> (ChainedIterator_IsAtEnd b \<or> \<not> IsAtEndOfInnerCollection b)"
    using ChainedIterator_new_wf [OF _ getters_wf_forward, of 0 data]
    by (auto simp add: ChainedBase_begin_def std_begin_def [of data] std_end_def [of data])
  have c4: "\<exists>e. ChainedBase_end data = Some e \<and> chain_wf e"
    using ChainedIterator_new_wf [OF _ getters_wf_forward, of "length data" data]
    by (auto simp add: ChainedBase_end_def std_end_def [of data])
  have c5: "\<exists>b. Chained_rbegin data = Some b \<and> chain_wf b
          \<and> (ChainedIterator_IsAtEnd b \<or> \<not> IsAtEndOfInnerCollection b)"
    using ChainedIterator_new_wf [OF _ getters_wf_reverse, of 0 "rev data"]
    by (auto simp add: Chained_rbegin_def std_rbegin_def [of data] std_rend_def [of data])
  have c6: "\<exists>e. Chained_rend data = Some e \<and> chain_wf e"
    using ChainedIterator_new_wf [OF _ getters_wf_reverse, of "length data" "rev data"]
    by (auto simp add: Chained_rend_def std_rend_def [of data])
  have c7: "chain_wf it \<longrightarrow> \<not> ChainedIterator_IsAtEnd it \<longrightarrow> \<not> IsAtEndOfInnerCollection it \<longrightarrow>
        (\<exists>it'. ChainedIterator_inc it = Some it' \<and> chain_wf it'
           \<and> (ChainedIterator_IsAtEnd it' \<or> \<not> IsAtEndOfInnerCollection it'))"
  proof (intro impI)
    assume "chain_wf it" "\<not> ChainedIterator_IsAtEnd it" "\<not> IsAtEndOfInnerCollection it"
    from ChainedIterator_inc_wf [OF this]
    obtain it' where "ChainedIterator_inc it = Some it'" "chain_wf it'"
        "ChainedIterator_IsAtEnd it' \<or> \<not> IsAtEndOfInnerCollection it'"
      by blast
    then show "\<exists>it'. ChainedIterator_inc it = Some it' \<and> chain_wf it'
           \<and> (ChainedIterator_IsAtEnd it' \<or> \<not> IsAtEndOfInnerCollection it')"
      by (intro exI [of _ it']) simp
  qed
  from c1 c2 c3 c4 c5 c6 c7 show ?thesis by (intro conjI)
qed

theorem Chain_skip_loop_returns_witness:
  "chain_wf (chain_at [[], [1 :: int], []] 0 [] 0)
   \<and> SkipEmptyInnerCollections (chain_at [[], [1 :: int], []] 0 [] 0)
       = Some (chain_at [[], [1], []] 1 [1] 0)
   \<and> AdvanceOuterCollection (chain_at [[], [1 :: int], []] 0 [] 0)
       = Some (chain_at [[], [1], []] 1 [1] 0)
   \<and> pos (outer_begin (chain_at [[], [1 :: int], []] 1 [1] 0))
       = Suc (pos (outer_begin (chain_at [[], [1 :: int], []] 0 [] 0)))
   \<and> ChainedBase_begin [[], [1 :: int], []] = Some (chain_at [[], [1], []] 1 [1] 0)
   \<and> chain_wf (chain_at [[], [1 :: int], []] 1 [1] 0)
   \<and> \<not> ChainedIterator_IsAtEnd (chain_at [[], [1 :: int], []] 1 [1] 0)
   \<and> \<not> IsAtEndOfInnerCollection (chain_at [[], [1 :: int], []] 1 [1] 0)
   \<and> ChainedIterator_inc (chain_at [[], [1 :: int], []] 1 [1] 0)
       = Some (chain_at [[], [1], []] 3 [] 0)
   \<and> chain_wf (chain_at [[], [1 :: int], []] 3 [] 0)
   \<and> ChainedIterator_IsAtEnd (chain_at [[], [1 :: int], []] 3 [] 0)"
proof -
  let ?os = "[[], [1 :: int], []]"
  note pre = Chain_skip_loop_returns [of "chain_at ?os 0 [] 0" ?os]
  note cur = Chain_skip_loop_returns [of "chain_at ?os 1 [1] 0" ?os]
  have w0: "chain_wf (chain_at ?os 0 [] 0)"
    by (simp add: chain_wf_def getters_wf_def chain_at_def std_begin_def std_end_def)
  have s0: "SkipEmptyInnerCollections (chain_at ?os 0 [] 0) = Some (chain_at ?os 1 [1] 0)"
    by (simp add: chain_eval)
  have a0: "AdvanceOuterCollection (chain_at ?os 0 [] 0) = Some (chain_at ?os 1 [1] 0)"
    by (simp add: chain_eval)
  from pre a0 have p0: "pos (outer_begin (chain_at ?os 1 [1] 0))
       = Suc (pos (outer_begin (chain_at ?os 0 [] 0)))"
    by blast
  from pre w0 s0 have w1: "chain_wf (chain_at ?os 1 [1] 0)"
    by auto
  have b: "ChainedBase_begin ?os = Some (chain_at ?os 1 [1] 0)"
    by (simp add: chain_eval)
  have n1: "\<not> ChainedIterator_IsAtEnd (chain_at ?os 1 [1] 0)"
    "\<not> IsAtEndOfInnerCollection (chain_at ?os 1 [1] 0)"
    by (simp_all add: chain_eval)
  have i1: "ChainedIterator_inc (chain_at ?os 1 [1] 0) = Some (chain_at ?os 3 [] 0)"
    by (simp add: chain_eval)
  from cur w1 n1 i1 have w3: "chain_wf (chain_at ?os 3 [] 0)"
    by auto
  have e3: "ChainedIterator_IsAtEnd (chain_at ?os 3 [] 0)"
    by (simp add: chain_eval)
  from w0 s0 a0 p0 b w1 n1 i1 w3 e3 show ?thesis by blast
qed

section \<open>Enumerate: traversal and positions\<close>




















section \<open>Reverse and Map\<close>

lemma std_walk:
  "range_for std_neq std_deref std_inc push_back
     \<lparr>elems = xs, pos = 0\<rparr> \<lparr>elems = xs, pos = length xs\<rparr> [] = Some xs"
proof -
  let ?I = "\<lambda>c :: 'a std_iterator. elems c = xs \<and> pos c \<le> length xs"
  let ?rest = "\<lambda>c :: 'a std_iterator. drop (pos c) xs"
  have "range_for std_neq std_deref std_inc push_back
     \<lparr>elems = xs, pos = 0\<rparr> \<lparr>elems = xs, pos = length xs\<rparr> []
     = Some (fold push_back (?rest \<lparr>elems = xs, pos = 0\<rparr>) [])"
  proof (rule range_for_fold [where I = ?I and rest = ?rest])
    show "?I \<lparr>elems = xs, pos = 0\<rparr>" by simp
  next
    fix c :: "'a std_iterator"
    assume "?I c" and "?rest c = []"
    then show "\<not> std_neq c \<lparr>elems = xs, pos = length xs\<rparr>"
      by (simp add: std_neq_def std_iterator_eq)
  next
    fix c :: "'a std_iterator" and v vs
    assume c: "?I c" and r: "?rest c = v # vs"
    then have k: "pos c < length xs" by (auto simp add: le_less)
    with r have v: "v = xs ! pos c" "vs = drop (Suc (pos c)) xs"
      by (simp_all add: Cons_nth_drop_Suc [symmetric])
    have "std_neq c \<lparr>elems = xs, pos = length xs\<rparr>"
      using k by (simp add: std_neq_def std_iterator_eq)
    moreover have "std_deref c = Some v"
      using c k v by (simp add: std_deref_def)
    moreover have "std_inc c = Some (c\<lparr>pos := Suc (pos c)\<rparr>)"
      using c k by (simp add: std_inc_def)
    ultimately show "std_neq c \<lparr>elems = xs, pos = length xs\<rparr> \<and> std_deref c = Some v \<and>
        (\<exists>c'. std_inc c = Some c' \<and> ?I c' \<and> ?rest c' = vs)"
      using c k v by simp
  qed
  then show ?thesis by (simp add: fold_push_back)
qed

text \<open>
  C9. \<open>Reverse(Reverse(S))\<close> hands out the very cursors of \<open>S\<close>, so its forward traversal
  is the forward traversal of \<open>S\<close>, whatever the cursor type of \<open>S\<close> and the body of the
  loop. Over a container, \<open>Reverse\<close> yields the elements back to front and
  \<open>Reverse(Reverse(...))\<close> yields them front to back, as the container itself does.
\<close>

theorem Reverse_Reverse_same_traversal:
  "Reversed (Reversed S) = S
   \<and> forward neq deref inc (Reversed (Reversed S)) = forward neq deref inc S
   \<and> forward std_neq std_deref std_inc (container xs) = Some xs
   \<and> forward std_neq std_deref std_inc (Reversed (container xs)) = Some (rev xs)
   \<and> forward std_neq std_deref std_inc (Reversed (Reversed (container xs))) = Some xs"
proof -
  have rr: "Reversed (Reversed T) = T" for T :: "'z bidirectional"
    by (simp add: Reversed_def)
  have c: "forward std_neq std_deref std_inc (container ys) = Some ys" for ys :: "'y list"
    using std_walk [of ys] by (simp add: forward_def container_def std_begin_def std_end_def)
  have r: "forward std_neq std_deref std_inc (Reversed (container ys)) = Some (rev ys)"
    for ys :: "'y list"
    using std_walk [of "rev ys"]
    by (simp add: forward_def container_def Reversed_def std_rbegin_def std_rend_def)
  show ?thesis by (simp add: rr c r)
qed

text \<open>
  C10. Dereferencing a Map cursor that is on an element is one invocation of the
  mapping function on that element: the result of the invocation is returned, and what
  the invocation does to the element and to the function's state is all that changes.
  The cursor is not changed and keeps no result, so dereferencing again is a second
  invocation on the same element, as the first one left it. Advancing changes neither the
  source nor the function's state: it invokes nothing.
\<close>

theorem Map_dereference_invokes_once:
  "m_begin it < length store \<Longrightarrow>
     mapping_function it (store ! m_begin it) s = (r, v', s') \<Longrightarrow>
     mapping_function it v' s' = (r2, v'', s'') \<Longrightarrow>
     MappedIterator_deref it (store, s) = Some (r, store[m_begin it := v'], s')
     \<and> (MappedIterator_deref it (store, s) \<bind> (\<lambda>(r1, w1). MappedIterator_deref it w1))
          = Some (r2, store[m_begin it := v''], s'')
     \<and> MappedIterator_inc it (store, s) = Some (it\<lparr>m_begin := m_begin it + 1\<rparr>, store, s)"
  by (simp add: MappedIterator_deref_def MappedIterator_inc_def)

theorem Map_dereference_invokes_once_witness:
  "m_begin (MappedBase_begin [1, 3, 5] times_ten_add_hundred) < length [1 :: int, 3, 5]
   \<and> MappedIterator_deref (MappedBase_begin [1, 3, 5] times_ten_add_hundred) ([1, 3, 5], 0)
        = Some (10, [101, 3, 5], 1)
   \<and> (MappedIterator_deref (MappedBase_begin [1, 3, 5] times_ten_add_hundred) ([1, 3, 5], 0)
         \<bind> (\<lambda>(r1, w1). MappedIterator_deref (MappedBase_begin [1, 3, 5] times_ten_add_hundred) w1))
        = Some (1010, [201, 3, 5], 2)
   \<and> MappedIterator_inc (MappedBase_begin [1, 3, 5] times_ten_add_hundred) ([1, 3, 5], 0)
        = Some ((MappedBase_begin [1, 3, 5] times_ten_add_hundred)\<lparr>m_begin := 1\<rparr>, [1, 3, 5], 0)"
proof -
  let ?it = "MappedBase_begin [1 :: int, 3, 5] times_ten_add_hundred"
  have b: "m_begin ?it < length [1 :: int, 3, 5]"
    by (simp add: MappedBase_begin_def)
  have f1: "mapping_function ?it ([1, 3, 5] ! m_begin ?it) 0 = (10, 101, 1)"
    by (simp add: MappedBase_begin_def times_ten_add_hundred_def)
  have f2: "mapping_function ?it 101 1 = (1010, 201, 2)"
    by (simp add: MappedBase_begin_def times_ten_add_hundred_def)
  have m: "m_begin ?it = 0" by (simp add: MappedBase_begin_def)
  note inst = Map_dereference_invokes_once [OF b f1 f2]
  have c1: "MappedIterator_deref ?it ([1, 3, 5], 0) = Some (10, [101, 3, 5], 1)"
    using inst [THEN conjunct1] by (simp add: m)
  have c2: "(MappedIterator_deref ?it ([1, 3, 5], 0) \<bind> (\<lambda>(r1, w1). MappedIterator_deref ?it w1))
        = Some (1010, [201, 3, 5], 2)"
    using inst [THEN conjunct2, THEN conjunct1] by (simp add: m)
  have c3: "MappedIterator_inc ?it ([1, 3, 5], 0) = Some (?it\<lparr>m_begin := 1\<rparr>, [1, 3, 5], 0)"
    using inst [THEN conjunct2, THEN conjunct2] by (simp add: m)
  from b c1 c2 c3 show ?thesis by (intro conjI)
qed

section \<open>Cursor equality\<close>




subsection \<open>The cursors of a collection: Iterate, Reverse, AsReferences, Map\<close>










subsection \<open>Join\<close>




subsection \<open>Filter\<close>






subsection \<open>Enumerate\<close>




subsection \<open>Zip and Chain\<close>








subsection \<open>The entry points of the views\<close>















end
